theory Spec2Isabelle
  imports Main
begin

section \<open>The offline synchronisation of GateKeeper\<close>

text \<open>
  The development embeds the synchronisation logic of the \<open>Main\<close> component
  (\<open>handleSync\<close>, with the state it reads and writes) and the IndexedDB layer of
  \<open>src/lib/db.ts\<close> that it calls. The gateway, the clock and the faults of the
  storage engine are inputs of the model, gathered in one record.
\<close>

subsection \<open>Records (\<open>src/types.ts\<close>)\<close>

datatype entry_type = PERSONNEL | TRUCK | CAR | OTHER

datatype entry_status = ACTIVE | DELETED

text \<open>
  The four payload interfaces; the first field of each is \<open>notes\<close> of
  \<open>PayloadBase\<close>, the others follow in the order of the declaration.
\<close>

datatype payload =
    PersonnelPayload string string string string
  | TruckPayload string string string string
  | CarPayload string string string
  | OtherPayload string string string

text \<open>
  \<open>isPending\<close> is an optional field: \<open>None\<close> is the absent field, which is falsy
  where the code tests it.
\<close>

record entry =
  record_id :: string
  checkpoint_id :: string
  entry_type :: entry_type
  logging_user_id :: string
  client_ts :: string
  updated_at :: string
  created_at :: string
  status :: entry_status
  isPending :: "bool option"
  payload :: payload

text \<open>
  An instant is a \<open>Date\<close>, in milliseconds since the epoch. The application state
  table stores the instant as its ISO-8601 text, which names the instant uniquely, so
  the model stores the instant itself.
\<close>

type_synonym instant = int

subsection \<open>The gateway (\<open>src/api/client.ts\<close>)\<close>

record push_response =
  success :: bool
  accepted :: int
  rejected :: int
  rejected_ids :: "string list option"
  message :: string

text \<open>
  \<open>SyncPullResponse\<close>: fields \<open>entries\<close> and \<open>count\<close>. The caller guards a missing
  \<open>entries\<close> with \<open>|| []\<close>, so the field is optional here.
\<close>

record pull_response =
  pr_entries :: "entry list option"
  pr_count :: int

text \<open>
  What a \<open>catch\<close> receives: an \<open>Error\<close> object with its message (a failed
  \<open>fetch\<close>, the \<open>APIError\<close> of a response that is not ok, a failed transaction),
  or any other thrown value.
\<close>

datatype thrown = Error string | NonError

datatype gateway_call =
    Push string "entry list"
  | Pull string "instant option"

text \<open>
  The world around one run: what the gateway answers to \<open>api.sync.push\<close> and
  \<open>api.sync.pull\<close> (\<open>Inl\<close> when the call throws), whether the transaction of
  \<open>db.saveEntries\<close> or the write of \<open>db.setAppState\<close> fails, and what
  \<open>new Date()\<close> reads.
\<close>

record env =
  push :: "string \<Rightarrow> entry list \<Rightarrow> thrown + push_response"
  pull :: "string \<Rightarrow> instant option \<Rightarrow> thrown + pull_response"
  saveEntries_fault :: "entry list \<Rightarrow> thrown option"
  setAppState_fault :: "string \<Rightarrow> instant \<Rightarrow> thrown option"
  now :: instant

subsection \<open>The state of \<open>Main\<close> and of the database\<close>

text \<open>
  The React state of the component (\<open>entries\<close>, \<open>isOnline\<close>, \<open>isSyncing\<close>,
  \<open>syncError\<close>, \<open>lastSyncTime\<close>), the token of the authentication context, the
  two object stores of \<open>gatekeeper-db\<close> (\<open>entries\<close>, keyed by \<open>record_id\<close>, and
  \<open>app-state\<close>), and the gateway calls made so far, oldest first.
\<close>

record main_state =
  entries :: "entry list"
  isOnline :: bool
  isSyncing :: bool
  syncError :: "string option"
  lastSyncTime :: "instant option"
  token :: "string option"
  db_entries :: "string \<rightharpoonup> entry"
  db_app_state :: "string \<rightharpoonup> instant"
  calls :: "gateway_call list"

subsection \<open>\<open>src/lib/db.ts\<close>\<close>

text \<open>\<open>tx.store.put(entry)\<close> on a store whose key path is \<open>record_id\<close>.\<close>

definition put_entry :: "(string \<rightharpoonup> entry) \<Rightarrow> entry \<Rightarrow> (string \<rightharpoonup> entry)" where
  "put_entry store e = store(record_id e \<mapsto> e)"

text \<open>
  \<open>saveEntries\<close> puts every entry inside one read-write transaction, in the order of
  the list. This is the store after a transaction that completes; one that fails is
  rolled back and leaves the store as it was.
\<close>

definition saveEntries :: "entry list \<Rightarrow> (string \<rightharpoonup> entry) \<Rightarrow> (string \<rightharpoonup> entry)" where
  "saveEntries es store = foldl put_entry store es"

definition setAppState :: "string \<Rightarrow> instant \<Rightarrow> (string \<rightharpoonup> instant) \<Rightarrow> (string \<rightharpoonup> instant)" where
  "setAppState key v tab = tab(key \<mapsto> v)"

subsection \<open>\<open>handleSync\<close>\<close>

text \<open>\<open>entries.filter(e => e.isPending)\<close>\<close>

definition pendingEntries :: "main_state \<Rightarrow> entry list" where
  "pendingEntries s = filter (\<lambda>e. isPending e = Some True) (entries s)"

text \<open>A string is truthy when it is present and not empty.\<close>

fun truthy :: "string option \<Rightarrow> bool" where
  "truthy None = False"
| "truthy (Some str) = (str \<noteq> [])"

definition entriesToSync :: "string option \<Rightarrow> main_state \<Rightarrow> entry list" where
  "entriesToSync recordIdToSync s =
     (if truthy recordIdToSync
      then filter (\<lambda>e. Some (record_id e) = recordIdToSync) (pendingEntries s)
      else pendingEntries s)"

text \<open>The callback of \<open>entries.map\<close> after the push.\<close>

definition markPushed :: "push_response \<Rightarrow> entry list \<Rightarrow> entry \<Rightarrow> entry" where
  "markPushed pushResponse batch e =
     (let wasRejected = (case rejected_ids pushResponse of
                           None \<Rightarrow> False
                         | Some ids \<Rightarrow> record_id e \<in> set ids)
      in if wasRejected then e
         else if list_ex (\<lambda>b. record_id b = record_id e) batch
              then e\<lparr>isPending := Some False\<rparr>
              else e)"

text \<open>\<open>Array.prototype.findIndex\<close>; \<open>None\<close> is the result -1.\<close>

fun findIndex :: "('a \<Rightarrow> bool) \<Rightarrow> 'a list \<Rightarrow> nat option" where
  "findIndex P [] = None"
| "findIndex P (x # xs) = (if P x then Some 0 else map_option Suc (findIndex P xs))"

text \<open>The callback of \<open>pulledEntries.forEach\<close>; \<open>unshift\<close> puts the entry first.\<close>

definition mergeOne :: "entry list \<Rightarrow> entry \<Rightarrow> entry list" where
  "mergeOne mergedEntries serverEntry =
     (case findIndex (\<lambda>e. record_id e = record_id serverEntry) mergedEntries of
        Some existingIndex \<Rightarrow>
          mergedEntries[existingIndex := serverEntry\<lparr>isPending := Some False\<rparr>]
      | None \<Rightarrow> serverEntry\<lparr>isPending := Some False\<rparr> # mergedEntries)"

definition mergeEntries :: "entry list \<Rightarrow> entry list \<Rightarrow> entry list" where
  "mergeEntries updatedEntries pulledEntries = foldl mergeOne updatedEntries pulledEntries"

definition pulledEntries :: "pull_response \<Rightarrow> entry list" where
  "pulledEntries pullResponse = (case pr_entries pullResponse of None \<Rightarrow> [] | Some es \<Rightarrow> es)"

text \<open>Decimal digits of a number, as a template literal prints it.\<close>

fun digit :: "nat \<Rightarrow> char" where
  "digit n = (''0123456789'' ! n)"

fun show_nat :: "nat \<Rightarrow> string" where
  "show_nat n = (if n < 10 then [digit n] else show_nat (n div 10) @ [digit (n mod 10)])"

definition catch_block :: "thrown \<Rightarrow> main_state \<Rightarrow> main_state" where
  "catch_block err s =
     s\<lparr>syncError := Some (case err of Error m \<Rightarrow> m
                                    | NonError \<Rightarrow> ''Sync failed. Please try again.'')\<rparr>"

definition finally_block :: "main_state \<Rightarrow> main_state" where
  "finally_block s = s\<lparr>isSyncing := False\<rparr>"

text \<open>
  The statements after the pull has answered: merge, commit, watermark, warning.
  \<open>s\<close> is the state when the pull answers, \<open>updatedEntries\<close> the local list after the
  push outcome.
\<close>

definition commit_phase ::
  "env \<Rightarrow> push_response \<Rightarrow> pull_response \<Rightarrow> entry list \<Rightarrow> main_state \<Rightarrow> main_state" where
  "commit_phase env pushResponse pullResponse updatedEntries s =
     (let mergedEntries = mergeEntries updatedEntries (pulledEntries pullResponse)
      in case saveEntries_fault env mergedEntries of
           Some err \<Rightarrow> catch_block err s
         | None \<Rightarrow>
            (let s1 = s\<lparr>db_entries := saveEntries mergedEntries (db_entries s),
                        entries := mergedEntries\<rparr>;
                 newSyncTime = now env;
                 s2 = s1\<lparr>lastSyncTime := Some newSyncTime\<rparr>
             in case setAppState_fault env ''lastSyncTime'' newSyncTime of
                  Some err \<Rightarrow> catch_block err s2
                | None \<Rightarrow>
                   (let s3 = s2\<lparr>db_app_state :=
                                 setAppState ''lastSyncTime'' newSyncTime (db_app_state s2)\<rparr>
                    in case rejected_ids pushResponse of
                         None \<Rightarrow> s3
                       | Some ids \<Rightarrow>
                          if length ids > 0
                          then s3\<lparr>syncError := Some (show_nat (length ids) @
                                      '' entries were rejected due to conflicts'')\<rparr>
                          else s3)))"

text \<open>The body of the \<open>try\<close> from the push on, with its \<open>catch\<close>.\<close>

definition sync_body :: "env \<Rightarrow> string \<Rightarrow> entry list \<Rightarrow> main_state \<Rightarrow> main_state" where
  "sync_body env tok batch s =
     (let s1 = s\<lparr>calls := calls s @ [Push tok batch]\<rparr>
      in case push env tok batch of
           Inl err \<Rightarrow> catch_block err s1
         | Inr pushResponse \<Rightarrow>
            (let updatedEntries = map (markPushed pushResponse batch) (entries s);
                 since = lastSyncTime s;
                 s2 = s1\<lparr>calls := calls s1 @ [Pull tok since]\<rparr>
             in case pull env tok since of
                  Inl err \<Rightarrow> catch_block err s2
                | Inr pullResponse \<Rightarrow>
                    commit_phase env pushResponse pullResponse updatedEntries s2))"

text \<open>
  One invocation of \<open>handleSync(recordIdToSync)\<close>, run to its end. The first line is
  the guard \<open>!isOnline || isSyncing || !token\<close>.
\<close>

definition handleSync :: "env \<Rightarrow> string option \<Rightarrow> main_state \<Rightarrow> main_state" where
  "handleSync env recordIdToSync s =
     (if \<not> isOnline s \<or> isSyncing s \<or> \<not> truthy (token s) then s
      else
        (case token s of
           None \<Rightarrow> s
         | Some tok \<Rightarrow>
            (let s1 = s\<lparr>isSyncing := True, syncError := None\<rparr>;
                 batch = entriesToSync recordIdToSync s
             in if length batch = 0 then finally_block (s1\<lparr>isSyncing := False\<rparr>)
                else finally_block (sync_body env tok batch s1))))"

subsection \<open>The handlers as the event loop executes them\<close>

text \<open>
  \<open>handleSync\<close> is an \<open>async\<close> function made by \<open>useCallback\<close>: the handler that a
  render creates reads \<open>entries\<close>, \<open>isOnline\<close>, \<open>isSyncing\<close>, \<open>pendingEntries\<close>,
  \<open>token\<close> and \<open>lastSyncTime\<close> as that render saw them, whatever the setters have
  stored since. It runs to its first \<open>await\<close>, and each later stretch runs when the
  awaited promise settles; other handlers may run in between. A suspended run holds the
  values its closure and its locals carry over the \<open>await\<close>: the token, the batch, and
  the \<open>entries\<close> and \<open>lastSyncTime\<close> of its render; then the push response with
  \<open>updatedEntries\<close>; then with \<open>mergedEntries\<close>; then the push response alone.
  \<open>handleLogEntry\<close> is suspended once, on \<open>db.saveEntry\<close>, holding its new entry.
\<close>

datatype awaiting =
    AwaitPush string "entry list" "entry list" "instant option"
  | AwaitPull push_response "entry list"
  | AwaitSaveEntries push_response "entry list"
  | AwaitSetAppState push_response instant
  | AwaitSaveEntry entry

text \<open>
  How an awaited promise settles. The settlement of \<open>db.saveEntries\<close> carries what
  \<open>new Date()\<close> reads when the run goes on.
\<close>

datatype settled =
    PushSettled "thrown + push_response"
  | PullSettled "thrown + pull_response"
  | SaveEntriesSettled "thrown option" instant
  | SetAppStateSettled "thrown option"
  | SaveEntrySettled "thrown option"

text \<open>
  What happens to the component: React renders it, a caller invokes the \<open>handleSync\<close>
  of the last render, the form submits an entry to the \<open>handleLogEntry\<close> of the last
  render, or a promise settles.
\<close>

datatype event =
    Render
  | Invoke "string option"
  | LogEntry entry
  | Settle nat settled

text \<open>
  \<open>comp\<close> is the state as the setters and the database have it, \<open>rendered\<close> the state
  that the last render saw (the handlers read its React fields only), \<open>running\<close> the
  suspended handlers.
\<close>

record engine =
  comp :: main_state
  rendered :: main_state
  running :: "awaiting list"

definition render :: "engine \<Rightarrow> engine" where
  "render e = e\<lparr>rendered := comp e\<rparr>"

text \<open>
  The synchronous start of an invocation, up to the call of \<open>api.sync.push\<close>. The
  guard and the batch read what the handler captured; \<open>setIsSyncing\<close> and
  \<open>setSyncError\<close> write the component.
\<close>

definition invoke :: "string option \<Rightarrow> engine \<Rightarrow> engine" where
  "invoke recordIdToSync e =
     (let h = rendered e
      in if \<not> isOnline h \<or> isSyncing h \<or> \<not> truthy (token h) then e
         else
           (case token h of
              None \<Rightarrow> e
            | Some tok \<Rightarrow>
               (let s1 = (comp e)\<lparr>isSyncing := True, syncError := None\<rparr>;
                    batch = entriesToSync recordIdToSync h
                in if length batch = 0
                   then e\<lparr>comp := finally_block (s1\<lparr>isSyncing := False\<rparr>)\<rparr>
                   else e\<lparr>comp := s1\<lparr>calls := calls s1 @ [Push tok batch]\<rparr>,
                          running := running e @
                            [AwaitPush tok batch (entries h) (lastSyncTime h)]\<rparr>)))"

text \<open>
  The entry that \<open>handleLogEntry\<close> builds: identifier, checkpoint, user, type,
  timestamps and payload are given (by \<open>randomUUID\<close>, the session, the clock and the
  form); the status is \<open>ACTIVE\<close> and the entry is pending.
\<close>

definition newEntry :: "entry \<Rightarrow> entry" where
  "newEntry given = given\<lparr>status := ACTIVE, isPending := Some True\<rparr>"

text \<open>The start of \<open>handleLogEntry\<close> for a logged-in user, up to \<open>db.saveEntry\<close>.\<close>

definition logEntry :: "entry \<Rightarrow> engine \<Rightarrow> engine" where
  "logEntry given e = e\<lparr>running := running e @ [AwaitSaveEntry (newEntry given)]\<rparr>"

text \<open>
  The stretch of a suspended handler that follows a settlement: the new component state,
  and the next suspension if the handler has not ended. A settlement of another kind than
  the awaited one does not occur (\<open>None\<close>). After \<open>db.saveEntry\<close> the entry is
  stored and \<open>setEntries(prev => [newEntry, ...prev])\<close> puts it before the entries the
  component has then; a failed save changes nothing (it alerts).
\<close>

fun resume :: "awaiting \<Rightarrow> settled \<Rightarrow> main_state \<Rightarrow> (main_state \<times> awaiting option) option" where
  "resume (AwaitPush tok batch ents since) (PushSettled (Inl err)) s =
     Some (finally_block (catch_block err s), None)"
| "resume (AwaitPush tok batch ents since) (PushSettled (Inr pushResponse)) s =
     Some (s\<lparr>calls := calls s @ [Pull tok since]\<rparr>,
           Some (AwaitPull pushResponse (map (markPushed pushResponse batch) ents)))"
| "resume (AwaitPull pushResponse updatedEntries) (PullSettled (Inl err)) s =
     Some (finally_block (catch_block err s), None)"
| "resume (AwaitPull pushResponse updatedEntries) (PullSettled (Inr pullResponse)) s =
     Some (s, Some (AwaitSaveEntries pushResponse
                      (mergeEntries updatedEntries (pulledEntries pullResponse))))"
| "resume (AwaitSaveEntries pushResponse mergedEntries) (SaveEntriesSettled (Some err) t) s =
     Some (finally_block (catch_block err s), None)"
| "resume (AwaitSaveEntries pushResponse mergedEntries) (SaveEntriesSettled None t) s =
     Some (s\<lparr>db_entries := saveEntries mergedEntries (db_entries s),
              entries := mergedEntries,
              lastSyncTime := Some t\<rparr>,
           Some (AwaitSetAppState pushResponse t))"
| "resume (AwaitSetAppState pushResponse t) (SetAppStateSettled (Some err)) s =
     Some (finally_block (catch_block err s), None)"
| "resume (AwaitSetAppState pushResponse t) (SetAppStateSettled None) s =
     Some (finally_block
             (let s3 = s\<lparr>db_app_state := setAppState ''lastSyncTime'' t (db_app_state s)\<rparr>
              in case rejected_ids pushResponse of
                   None \<Rightarrow> s3
                 | Some ids \<Rightarrow>
                    if length ids > 0
                    then s3\<lparr>syncError := Some (show_nat (length ids) @
                                '' entries were rejected due to conflicts'')\<rparr>
                    else s3),
           None)"
| "resume (AwaitSaveEntry e) (SaveEntrySettled (Some err)) s = Some (s, None)"
| "resume (AwaitSaveEntry e) (SaveEntrySettled None) s =
     Some (s\<lparr>db_entries := put_entry (db_entries s) e, entries := e # entries s\<rparr>, None)"
| "resume _ _ s = None"

text \<open>
  \<open>Settle i x\<close> settles the promise the \<open>i\<close>-th suspended handler awaits; where there
  is no such handler, or it awaits something else, nothing happens.
\<close>

definition settle :: "nat \<Rightarrow> settled \<Rightarrow> engine \<Rightarrow> engine" where
  "settle i x e =
     (if i < length (running e)
      then (case resume (running e ! i) x (comp e) of
              None \<Rightarrow> e
            | Some (s', None) \<Rightarrow>
                e\<lparr>comp := s', running := take i (running e) @ drop (Suc i) (running e)\<rparr>
            | Some (s', Some a) \<Rightarrow>
                e\<lparr>comp := s', running := (running e)[i := a]\<rparr>)
      else e)"

fun engine_step :: "engine \<Rightarrow> event \<Rightarrow> engine" where
  "engine_step e Render = render e"
| "engine_step e (Invoke recordIdToSync) = invoke recordIdToSync e"
| "engine_step e (LogEntry given) = logEntry given e"
| "engine_step e (Settle i x) = settle i x e"

definition engine_run :: "event list \<Rightarrow> engine \<Rightarrow> engine" where
  "engine_run evs e = foldl engine_step e evs"

text \<open>A component that has just rendered, with no handler suspended.\<close>

definition fresh :: "main_state \<Rightarrow> engine" where
  "fresh s = \<lparr>comp = s, rendered = s, running = []\<rparr>"

text \<open>The events of one invocation that runs alone, with the answers of \<open>env\<close>.\<close>

definition alone :: "env \<Rightarrow> string option \<Rightarrow> main_state \<Rightarrow> event list" where
  "alone env recordIdToSync s =
     (case token s of
        None \<Rightarrow> [Invoke recordIdToSync]
      | Some tok \<Rightarrow>
         (let batch = entriesToSync recordIdToSync s;
              pushed = push env tok batch;
              pulled = pull env tok (lastSyncTime s);
              mergedEntries =
                (case (pushed, pulled) of
                   (Inr pushResponse, Inr pullResponse) \<Rightarrow>
                     mergeEntries (map (markPushed pushResponse batch) (entries s))
                       (pulledEntries pullResponse)
                 | _ \<Rightarrow> [])
          in [Invoke recordIdToSync,
              Settle 0 (PushSettled pushed),
              Settle 0 (PullSettled pulled),
              Settle 0 (SaveEntriesSettled (saveEntries_fault env mergedEntries) (now env)),
              Settle 0 (SetAppStateSettled (setAppState_fault env ''lastSyncTime'' (now env)))]))"

subsection \<open>Notions used in the statements\<close>

text \<open>What the merge stores for a pulled entry: \<open>{ ...serverEntry, isPending: false }\<close>.\<close>

definition synced :: "entry \<Rightarrow> entry" where
  "synced e = e\<lparr>isPending := Some False\<rparr>"

text \<open>
  Replacing the first entry that carries an identifier; the recursive reading of
  \<open>findIndex\<close> followed by the assignment at that index.
\<close>

fun replaceFirst :: "string \<Rightarrow> entry \<Rightarrow> entry list \<Rightarrow> entry list" where
  "replaceFirst X v [] = []"
| "replaceFirst X v (e # es) = (if record_id e = X then v # es else e # replaceFirst X v es)"

text \<open>The text that the \<open>catch\<close> block shows for a thrown value.\<close>

definition error_text :: "thrown \<Rightarrow> string" where
  "error_text err = (case err of Error m \<Rightarrow> m | NonError \<Rightarrow> ''Sync failed. Please try again.'')"

text \<open>
  The merged list of a run that gets as far as the commit: the guard lets the run
  start, the batch is not empty, and push and pull both answer.
\<close>

definition merged_by :: "env \<Rightarrow> string option \<Rightarrow> main_state \<Rightarrow> entry list option" where
  "merged_by env rid s =
     (if \<not> isOnline s \<or> isSyncing s \<or> \<not> truthy (token s) \<or> entriesToSync rid s = [] then None
      else case token s of
             None \<Rightarrow> None
           | Some tok \<Rightarrow>
              (case push env tok (entriesToSync rid s) of
                 Inl err \<Rightarrow> None
               | Inr pushResponse \<Rightarrow>
                  (case pull env tok (lastSyncTime s) of
                     Inl err \<Rightarrow> None
                   | Inr pullResponse \<Rightarrow>
                      Some (mergeEntries
                              (map (markPushed pushResponse (entriesToSync rid s)) (entries s))
                              (pulledEntries pullResponse)))))"

text \<open>The run commits: it reaches the commit and the transaction of \<open>saveEntries\<close> completes.\<close>

definition committed :: "env \<Rightarrow> string option \<Rightarrow> main_state \<Rightarrow> bool" where
  "committed env rid s =
     (case merged_by env rid s of
        None \<Rightarrow> False
      | Some mergedEntries \<Rightarrow> saveEntries_fault env mergedEntries = None)"

text \<open>The entries of the pull response of a run; none when the pull throws.\<close>

definition pulled_by :: "env \<Rightarrow> main_state \<Rightarrow> entry list" where
  "pulled_by env s =
     (case token s of
        None \<Rightarrow> []
      | Some tok \<Rightarrow>
         (case pull env tok (lastSyncTime s) of
            Inl err \<Rightarrow> []
          | Inr pullResponse \<Rightarrow> pulledEntries pullResponse))"

text \<open>
  The component holds what the database holds: every entry of the React state is the
  stored entry of its identifier. The component loads \<open>entries\<close> from the database,
  and writes the database before every \<open>setEntries\<close>.
\<close>

definition store_consistent :: "main_state \<Rightarrow> bool" where
  "store_consistent s = (\<forall>e\<in>set (entries s). db_entries s (record_id e) = Some e)"



subsection \<open>Scenarios\<close>

text \<open>
  A pending entry \<open>r1\<close>, a synchronised entry \<open>r2\<close>, the version of \<open>r1\<close> that
  the server holds, and a component that is online with both entries stored.
\<close>

definition r1 :: entry where
  "r1 = \<lparr>record_id = ''r1'', checkpoint_id = ''gate-a'', entry_type = CAR,
          logging_user_id = ''op1'', client_ts = ''t1'', updated_at = ''t1'',
          created_at = ''t1'', status = ACTIVE, isPending = Some True,
          payload = CarPayload ''visitor'' ''UAX 001A'' ''Okello''\<rparr>"

definition r2 :: entry where
  "r2 = \<lparr>record_id = ''r2'', checkpoint_id = ''gate-a'', entry_type = TRUCK,
          logging_user_id = ''op1'', client_ts = ''t0'', updated_at = ''t0'',
          created_at = ''t0'', status = ACTIVE, isPending = Some False,
          payload = TruckPayload ''delivery'' ''UBB 222B'' ''Haulage'' ''cement''\<rparr>"

definition r1_server :: entry where
  "r1_server = r1\<lparr>updated_at := ''t9'', status := DELETED, isPending := None\<rparr>"

definition gate_state :: main_state where
  "gate_state = \<lparr>entries = [r1, r2], isOnline = True, isSyncing = False, syncError = None,
                  lastSyncTime = Some 100, token = Some ''tok'',
                  db_entries = [''r1'' \<mapsto> r1, ''r2'' \<mapsto> r2],
                  db_app_state = [''lastSyncTime'' \<mapsto> 100], calls = []\<rparr>"


text \<open>
  A gateway that accepts the batch and has nothing to send, a store without faults,
  and a clock that reads 200; then the same with one thing changed.
\<close>

definition calm :: env where
  "calm = \<lparr>push = (\<lambda>tok batch. Inr \<lparr>success = True, accepted = 1, rejected = 0,
                                       rejected_ids = None, message = ''ok''\<rparr>),
            pull = (\<lambda>tok since. Inr \<lparr>pr_entries = Some [], pr_count = 0\<rparr>),
            saveEntries_fault = (\<lambda>es. None),
            setAppState_fault = (\<lambda>key v. None),
            now = 200\<rparr>"

definition push_down :: env where
  "push_down = calm\<lparr>push := (\<lambda>tok batch. Inl (Error ''Failed to fetch''))\<rparr>"

definition pull_down :: env where
  "pull_down = calm\<lparr>pull := (\<lambda>tok since. Inl (Error ''HTTP 500''))\<rparr>"

definition clock_back :: env where
  "clock_back = calm\<lparr>now := 50\<rparr>"

definition rejects_unlisted :: env where
  "rejects_unlisted =
     calm\<lparr>push := (\<lambda>tok batch. Inr \<lparr>success = True, accepted = 0, rejected = 1,
                                        rejected_ids = None, message = ''conflict''\<rparr>)\<rparr>"

definition rejects_listed :: env where
  "rejects_listed =
     calm\<lparr>push := (\<lambda>tok batch. Inr \<lparr>success = True, accepted = 0, rejected = 1,
                                        rejected_ids = Some [''r1''], message = ''conflict''\<rparr>)\<rparr>"

definition rejects_and_returns :: env where
  "rejects_and_returns =
     rejects_listed\<lparr>pull := (\<lambda>tok since. Inr \<lparr>pr_entries = Some [r1_server], pr_count = 1\<rparr>)\<rparr>"

definition state_write_fails :: env where
  "state_write_fails =
     calm\<lparr>setAppState_fault := (\<lambda>key v. Some (Error ''QuotaExceededError''))\<rparr>"

text \<open>An entry that the operator logs while a run is under way.\<close>

definition r3 :: entry where
  "r3 = \<lparr>record_id = ''r3'', checkpoint_id = ''gate-a'', entry_type = PERSONNEL,
          logging_user_id = ''op1'', client_ts = ''t5'', updated_at = ''t5'',
          created_at = ''t5'', status = ACTIVE, isPending = Some True,
          payload = PersonnelPayload ''shift'' ''Akello'' ''CM-17'' ''work''\<rparr>"

section \<open>Properties\<close>

subsection \<open>The merge loop\<close>

text \<open>
  One step of the loop replaces the first entry of the identifier or puts the pulled
  entry first; the facts below read the merged list through \<open>find\<close>, \<open>filter\<close>
  and the list of identifiers.
\<close>

lemma record_id_synced [simp]: "record_id (synced e) = record_id e"
  by (simp add: synced_def)

lemma findIndex_replace:
  "findIndex (\<lambda>e. record_id e = X) M = Some i \<Longrightarrow> M[i := v] = replaceFirst X v M"
  by (induction M arbitrary: i) (auto split: if_splits)

lemma findIndex_None: "(findIndex P xs = None) = (\<forall>x\<in>set xs. \<not> P x)"
  by (induction xs) auto

lemma mergeOne_eq:
  "mergeOne M p = (if record_id p \<in> record_id ` set M
                   then replaceFirst (record_id p) (synced p) M
                   else synced p # M)"
proof (cases "findIndex (\<lambda>e. record_id e = record_id p) M")
  case None
  then have "record_id p \<notin> record_id ` set M"
    by (auto simp: findIndex_None)
  with None show ?thesis by (simp add: mergeOne_def synced_def)
next
  case (Some i)
  then obtain x where "x \<in> set M" and "record_id x = record_id p"
    using findIndex_None [of "\<lambda>e. record_id e = record_id p" M] by auto
  then have "record_id p \<in> record_id ` set M"
    by (metis imageI)
  with Some show ?thesis
    by (simp add: mergeOne_def synced_def findIndex_replace)
qed

lemma in_ids_filter: "(X \<in> record_id ` set es) = (filter (\<lambda>e. record_id e = X) es \<noteq> [])"
  by (auto simp: filter_empty_conv)

lemma ids_replaceFirst:
  "record_id v = X \<Longrightarrow> map record_id (replaceFirst X v M) = map record_id M"
  by (induction M) auto

lemma set_ids_replaceFirst:
  "record_id v = X \<Longrightarrow> record_id ` set (replaceFirst X v M) = record_id ` set M"
  using ids_replaceFirst [of v X M] by (metis set_map)

lemma find_replaceFirst:
  "record_id v = X \<Longrightarrow>
   find (\<lambda>e. record_id e = Y) (replaceFirst X v M) =
     (if Y = X \<and> X \<in> record_id ` set M then Some v else find (\<lambda>e. record_id e = Y) M)"
  by (induction M) auto

lemma find_None_ids: "(find (\<lambda>e. record_id e = Y) M = None) = (Y \<notin> record_id ` set M)"
  by (auto simp: find_None_iff)

lemma filter_replaceFirst:
  "record_id v = X \<Longrightarrow> Y \<noteq> X \<Longrightarrow>
   filter (\<lambda>e. record_id e = Y) (replaceFirst X v M) = filter (\<lambda>e. record_id e = Y) M"
  by (induction M) auto

lemma length_filter_replaceFirst:
  "record_id v = Y \<Longrightarrow>
   length (filter (\<lambda>e. record_id e = X) (replaceFirst Y v M)) =
   length (filter (\<lambda>e. record_id e = X) M)"
  by (induction M) auto

lemma set_replaceFirst: "set (replaceFirst X v M) \<subseteq> insert v (set M)"
  by (induction M) auto

lemma replaceFirst_twice:
  "record_id w = X \<Longrightarrow> replaceFirst X v (replaceFirst X w M) = replaceFirst X v M"
  by (induction M) auto

lemma replaceFirst_commute:
  "record_id v = X \<Longrightarrow> record_id w = Y \<Longrightarrow> X \<noteq> Y \<Longrightarrow>
   replaceFirst X v (replaceFirst Y w M) = replaceFirst Y w (replaceFirst X v M)"
  by (induction M) auto

lemma replaceFirst_absent: "X \<notin> record_id ` set M \<Longrightarrow> replaceFirst X v M = M"
  by (induction M) auto

lemma replaceFirst_same:
  "find (\<lambda>e. record_id e = X) M = Some v \<Longrightarrow> replaceFirst X v M = M"
  by (induction M) (auto split: if_splits)

lemma find_mergeOne:
  "find (\<lambda>e. record_id e = Y) (mergeOne M p) =
     (if record_id p = Y then Some (synced p) else find (\<lambda>e. record_id e = Y) M)"
  by (auto simp: mergeOne_eq find_replaceFirst)

lemma ids_mergeOne:
  "map record_id (mergeOne M p) =
     (if record_id p \<in> record_id ` set M then map record_id M
      else record_id p # map record_id M)"
  by (simp add: mergeOne_eq ids_replaceFirst)

lemma filter_mergeOne:
  "record_id p \<noteq> Y \<Longrightarrow>
   filter (\<lambda>e. record_id e = Y) (mergeOne M p) = filter (\<lambda>e. record_id e = Y) M"
  by (auto simp: mergeOne_eq filter_replaceFirst)

lemma count_mergeOne:
  "length (filter (\<lambda>e. record_id e = X) (mergeOne M p)) =
     (if record_id p = X \<and> X \<notin> record_id ` set M then 1
      else length (filter (\<lambda>e. record_id e = X) M))"
  by (auto simp: mergeOne_eq length_filter_replaceFirst in_ids_filter)

lemma set_mergeOne: "set (mergeOne M p) \<subseteq> insert (synced p) (set M)"
  using set_replaceFirst [of "record_id p" "synced p" M] by (auto simp: mergeOne_eq)

lemma distinct_mergeOne:
  "distinct (map record_id M) \<Longrightarrow> distinct (map record_id (mergeOne M p))"
  by (simp add: ids_mergeOne)

lemma mergeOne_replaceFirst_same:
  "record_id v = record_id p \<Longrightarrow>
   mergeOne (replaceFirst (record_id p) v T) p = mergeOne T p"
  by (simp add: mergeOne_eq set_ids_replaceFirst replaceFirst_twice replaceFirst_absent)

lemma mergeOne_replaceFirst_other:
  "record_id v = X \<Longrightarrow> record_id p \<noteq> X \<Longrightarrow>
   mergeOne (replaceFirst X v T) p = replaceFirst X v (mergeOne T p)"
  by (auto simp: mergeOne_eq set_ids_replaceFirst replaceFirst_commute)

lemma mergeOne_fixed:
  "find (\<lambda>e. record_id e = record_id p) T = Some (synced p) \<Longrightarrow> mergeOne T p = T"
proof -
  assume f: "find (\<lambda>e. record_id e = record_id p) T = Some (synced p)"
  then have "record_id p \<in> record_id ` set T"
    using find_None_ids [of "record_id p" T] by auto
  with f show ?thesis by (simp add: mergeOne_eq replaceFirst_same)
qed

lemma mergeEntries_Nil [simp]: "mergeEntries M [] = M"
  by (simp add: mergeEntries_def)

lemma mergeEntries_Cons [simp]: "mergeEntries M (p # ps) = mergeEntries (mergeOne M p) ps"
  by (simp add: mergeEntries_def)

lemma mergeEntries_snoc: "mergeEntries M (ps @ [p]) = mergeOne (mergeEntries M ps) p"
  by (simp add: mergeEntries_def)

lemma filter_mergeEntries:
  "Y \<notin> record_id ` set ps \<Longrightarrow>
   filter (\<lambda>e. record_id e = Y) (mergeEntries M ps) = filter (\<lambda>e. record_id e = Y) M"
  by (induction ps arbitrary: M) (auto simp: filter_mergeOne)

lemma find_mergeEntries_other:
  "Y \<notin> record_id ` set ps \<Longrightarrow>
   find (\<lambda>e. record_id e = Y) (mergeEntries M ps) = find (\<lambda>e. record_id e = Y) M"
  by (induction ps arbitrary: M) (auto simp: find_mergeOne)

lemma find_mergeEntries_pulled:
  "Y \<in> record_id ` set ps \<Longrightarrow>
   find (\<lambda>e. record_id e = Y) (mergeEntries M ps) =
     Some (synced (last (filter (\<lambda>e. record_id e = Y) ps)))"
proof (induction ps rule: rev_induct)
  case Nil
  then show ?case by simp
next
  case (snoc p ps)
  show ?case
  proof (cases "record_id p = Y")
    case True
    then show ?thesis by (simp add: mergeEntries_snoc find_mergeOne)
  next
    case False
    with snoc.prems have "Y \<in> record_id ` set ps" by auto
    with snoc.IH False show ?thesis by (simp add: mergeEntries_snoc find_mergeOne)
  qed
qed

lemma ids_mergeEntries_subset:
  "record_id ` set M \<subseteq> record_id ` set (mergeEntries M ps)"
proof (induction ps arbitrary: M)
  case Nil
  then show ?case by simp
next
  case (Cons p ps)
  have "set (map record_id M) \<subseteq> set (map record_id (mergeOne M p))"
    by (auto simp: ids_mergeOne)
  then have "record_id ` set M \<subseteq> record_id ` set (mergeOne M p)" by simp
  with Cons.IH [of "mergeOne M p"] show ?case by auto
qed

lemma count_mergeEntries:
  "length (filter (\<lambda>e. record_id e = X) (mergeEntries M ps)) =
     (if X \<in> record_id ` set M \<or> X \<notin> record_id ` set ps
      then length (filter (\<lambda>e. record_id e = X) M) else 1)"
proof (induction ps arbitrary: M)
  case Nil
  then show ?case by simp
next
  case (Cons p ps)
  have ids: "record_id ` set (mergeOne M p) = insert (record_id p) (record_id ` set M)"
    using ids_mergeOne [of M p] by (metis (full_types) insert_absorb list.simps(15) set_map)
  show ?case
    using Cons.IH [of "mergeOne M p"]
    by (auto simp: ids count_mergeOne in_ids_filter)
qed

lemma set_mergeEntries: "set (mergeEntries M ps) \<subseteq> synced ` set ps \<union> set M"
proof (induction ps arbitrary: M)
  case Nil
  then show ?case by simp
next
  case (Cons p ps)
  from Cons.IH [of "mergeOne M p"] set_mergeOne [of M p] show ?case by auto
qed

lemma distinct_mergeEntries:
  "distinct (map record_id M) \<Longrightarrow> distinct (map record_id (mergeEntries M ps))"
  by (induction ps arbitrary: M) (simp_all add: distinct_mergeOne)

lemma mergeEntries_absorbs:
  "record_id v = X \<Longrightarrow> X \<in> record_id ` set ps \<Longrightarrow>
   mergeEntries (replaceFirst X v T) ps = mergeEntries T ps"
proof (induction ps arbitrary: T)
  case Nil
  then show ?case by simp
next
  case (Cons p ps)
  show ?case
  proof (cases "record_id p = X")
    case True
    with Cons.prems show ?thesis
      using mergeOne_replaceFirst_same [of v p T] by simp
  next
    case False
    with Cons.prems have "X \<in> record_id ` set ps" by auto
    with Cons.IH [of "mergeOne T p"] Cons.prems False show ?thesis
      by (simp add: mergeOne_replaceFirst_other)
  qed
qed

subsection \<open>The entries store\<close>

text \<open>After \<open>saveEntries\<close> an identifier holds the last entry of the list that carries it.\<close>

lemma saveEntries_snoc: "saveEntries (es @ [e]) store = put_entry (saveEntries es store) e"
  by (simp add: saveEntries_def)

lemma saveEntries_apply:
  "saveEntries es store X =
     (if X \<in> record_id ` set es then Some (last (filter (\<lambda>e. record_id e = X) es))
      else store X)"
  by (induction es rule: rev_induct) (auto simp: saveEntries_snoc put_entry_def saveEntries_def)

lemma dom_saveEntries: "dom store \<subseteq> dom (saveEntries es store)"
  by (auto simp: saveEntries_apply)

lemma saveEntries_frame:
  assumes same: "filter (\<lambda>e. record_id e = X) m = filter (\<lambda>e. record_id e = X) es"
    and cons: "\<forall>e\<in>set es. store (record_id e) = Some e"
  shows "saveEntries m store X = store X"
proof (cases "filter (\<lambda>e. record_id e = X) es = []")
  case True
  with same show ?thesis by (simp add: saveEntries_apply in_ids_filter)
next
  case False
  then have "last (filter (\<lambda>e. record_id e = X) es) \<in> set (filter (\<lambda>e. record_id e = X) es)"
    by (rule last_in_set)
  then have "last (filter (\<lambda>e. record_id e = X) es) \<in> set es"
    and "record_id (last (filter (\<lambda>e. record_id e = X) es)) = X"
    by auto
  with cons have "store X = Some (last (filter (\<lambda>e. record_id e = X) es))"
    by auto
  with same False show ?thesis by (simp add: saveEntries_apply in_ids_filter)
qed

lemma saveEntries_twice: "saveEntries m (saveEntries m store) = saveEntries m store"
  by (rule ext) (simp add: saveEntries_apply)

lemma filter_distinct_id:
  "distinct (map record_id es) \<Longrightarrow> e \<in> set es \<Longrightarrow>
   filter (\<lambda>x. record_id x = record_id e) es = [e]"
  by (induction es) (auto simp: filter_empty_conv image_iff)

lemma saveEntries_consistent:
  assumes "distinct (map record_id m)" and "e \<in> set m"
  shows "saveEntries m store (record_id e) = Some e"
  using assms filter_distinct_id [OF assms]
  by (simp add: saveEntries_apply)

subsection \<open>The run\<close>

text \<open>
  A run either commits, and then stores the merged list and advances the watermark, or
  leaves entries, stores and watermark alone.
\<close>

lemmas run_defs = handleSync_def sync_body_def commit_phase_def catch_block_def
  finally_block_def Let_def

lemma truthy_Some: "truthy t \<Longrightarrow> \<exists>tok. t = Some tok \<and> tok \<noteq> []"
  by (cases t) auto

lemma handleSync_guard:
  "\<not> isOnline s \<or> isSyncing s \<or> \<not> truthy (token s) \<Longrightarrow> handleSync env rid s = s"
  by (auto simp: handleSync_def)

lemma calls_sync_body:
  "\<exists>rest. calls (sync_body env tok batch s) = calls s @ Push tok batch # rest"
  by (simp add: sync_body_def commit_phase_def catch_block_def Let_def
      split: sum.splits option.splits)

lemma calls_started:
  assumes "isOnline s" and "\<not> isSyncing s" and "token s = Some tok" and "tok \<noteq> []"
    and "entriesToSync rid s \<noteq> []"
  shows "\<exists>rest. calls (handleSync env rid s) = calls s @ Push tok (entriesToSync rid s) # rest"
proof -
  obtain rest where
    "calls (sync_body env tok (entriesToSync rid s) (s\<lparr>isSyncing := True, syncError := None\<rparr>))
       = calls s @ Push tok (entriesToSync rid s) # rest"
    using calls_sync_body [of env tok "entriesToSync rid s" "s\<lparr>isSyncing := True, syncError := None\<rparr>"]
    by auto
  with assms show ?thesis
    by (simp add: handleSync_def finally_block_def Let_def)
qed

lemma calls_after_push:
  assumes "isOnline s" and "\<not> isSyncing s" and "token s = Some tok" and "tok \<noteq> []"
    and "entriesToSync rid s \<noteq> []"
    and "push env tok (entriesToSync rid s) = Inr pushResponse"
  shows "calls (handleSync env rid s) =
           calls s @ [Push tok (entriesToSync rid s), Pull tok (lastSyncTime s)]"
  using assms by (simp add: run_defs split: sum.splits option.splits)

lemma entriesToSync_cong:
  "entries s' = entries s \<Longrightarrow> entriesToSync rid s' = entriesToSync rid s"
  by (simp add: entriesToSync_def pendingEntries_def)

lemma batch_pending: "e \<in> set (entriesToSync rid s) \<Longrightarrow> e \<in> set (entries s) \<and> isPending e = Some True"
  by (auto simp: entriesToSync_def pendingEntries_def split: if_splits)

lemma record_id_markPushed [simp]: "record_id (markPushed pr batch e) = record_id e"
  by (simp add: markPushed_def Let_def)

lemma list_ex_ids:
  "list_ex (\<lambda>b. record_id b = X) batch = (X \<in> record_id ` set batch)"
  by (induction batch) auto

lemma markPushed_outside:
  "record_id e \<notin> record_id ` set batch \<Longrightarrow> markPushed pr batch e = e"
  by (simp add: markPushed_def Let_def list_ex_ids)

lemma markPushed_unlisted:
  "rejected_ids pr = None \<Longrightarrow> record_id e \<in> record_id ` set batch \<Longrightarrow>
   isPending (markPushed pr batch e) = Some False"
  by (simp add: markPushed_def list_ex_ids)

lemma markPushed_rejected:
  "rejected_ids pr = Some ids \<Longrightarrow> record_id e \<in> set ids \<Longrightarrow> markPushed pr batch e = e"
  by (simp add: markPushed_def)

lemma filter_map_markPushed:
  "X \<notin> record_id ` set batch \<Longrightarrow>
   filter (\<lambda>e. record_id e = X) (map (markPushed pr batch) es) = filter (\<lambda>e. record_id e = X) es"
  by (induction es) (auto simp: markPushed_outside)

lemma filter_map_rejected:
  "rejected_ids pr = Some ids \<Longrightarrow> X \<in> set ids \<Longrightarrow>
   filter (\<lambda>e. record_id e = X) (map (markPushed pr batch) es) = filter (\<lambda>e. record_id e = X) es"
  by (induction es) (auto simp: markPushed_rejected)

lemma merged_frame:
  assumes "X \<notin> record_id ` set batch" and "X \<notin> record_id ` set ps"
  shows "filter (\<lambda>e. record_id e = X) (mergeEntries (map (markPushed pr batch) es) ps) =
         filter (\<lambda>e. record_id e = X) es"
  using assms by (simp add: filter_mergeEntries filter_map_markPushed)

lemma not_committed_frame:
  assumes "\<not> committed env rid s"
  shows "entries (handleSync env rid s) = entries s"
    and "db_entries (handleSync env rid s) = db_entries s"
    and "lastSyncTime (handleSync env rid s) = lastSyncTime s"
    and "db_app_state (handleSync env rid s) = db_app_state s"
  using assms
  by (auto simp: committed_def merged_by_def run_defs split: sum.splits option.splits if_splits)

lemma committed_result:
  assumes "committed env rid s"
  shows "\<exists>m. merged_by env rid s = Some m \<and> saveEntries_fault env m = None \<and>
             entries (handleSync env rid s) = m \<and>
             db_entries (handleSync env rid s) = saveEntries m (db_entries s) \<and>
             lastSyncTime (handleSync env rid s) = Some (now env) \<and>
             db_app_state (handleSync env rid s) =
               (if setAppState_fault env ''lastSyncTime'' (now env) = None
                then (db_app_state s)(''lastSyncTime'' \<mapsto> now env)
                else db_app_state s)"
  using assms
  by (auto simp: committed_def merged_by_def run_defs setAppState_def
      split: sum.splits option.splits if_splits)

lemma committedE:
  assumes "committed env rid s"
  obtains tok pushResponse pullResponse where
    "token s = Some tok" and "tok \<noteq> []" and "isOnline s" and "\<not> isSyncing s"
    and "entriesToSync rid s \<noteq> []"
    and "push env tok (entriesToSync rid s) = Inr pushResponse"
    and "pull env tok (lastSyncTime s) = Inr pullResponse"
    and "merged_by env rid s =
           Some (mergeEntries (map (markPushed pushResponse (entriesToSync rid s)) (entries s))
                   (pulledEntries pullResponse))"
    and "saveEntries_fault env
           (mergeEntries (map (markPushed pushResponse (entriesToSync rid s)) (entries s))
              (pulledEntries pullResponse)) = None"
  using assms
  by (auto simp: committed_def merged_by_def split: sum.splits option.splits if_splits)

lemma syncError_rejected:
  assumes c: "committed env rid s" and tok: "token s = Some tok"
    and p: "push env tok (entriesToSync rid s) = Inr pushResponse"
    and r: "rejected_ids pushResponse = Some ids" and ne: "ids \<noteq> []"
    and ok: "setAppState_fault env ''lastSyncTime'' (now env) = None"
  shows "syncError (handleSync env rid s) =
           Some (show_nat (length ids) @ '' entries were rejected due to conflicts'')"
proof -
  from c obtain tok' pushResponse' pullResponse where
    f: "token s = Some tok'" "tok' \<noteq> []" "isOnline s" "\<not> isSyncing s"
       "entriesToSync rid s \<noteq> []"
       "push env tok' (entriesToSync rid s) = Inr pushResponse'"
       "pull env tok' (lastSyncTime s) = Inr pullResponse"
       "saveEntries_fault env
           (mergeEntries (map (markPushed pushResponse' (entriesToSync rid s)) (entries s))
              (pulledEntries pullResponse)) = None"
    by (rule committedE)
  from f tok p have eq: "tok' = tok" "pushResponse' = pushResponse" by simp_all
  from f(2-8) tok p r ne ok show ?thesis
    unfolding eq
    by (simp add: run_defs del: show_nat.simps)
qed

lemma abort_on_pull:
  assumes "isOnline s" and "\<not> isSyncing s" and "token s = Some tok" and "tok \<noteq> []"
    and "entriesToSync rid s \<noteq> []"
    and "push env tok (entriesToSync rid s) = Inr pushResponse"
    and "pull env tok (lastSyncTime s) = Inl err"
  shows "handleSync env rid s =
           s\<lparr>calls := calls s @ [Push tok (entriesToSync rid s), Pull tok (lastSyncTime s)],
             syncError := Some (error_text err)\<rparr>"
  using assms by (simp add: run_defs error_text_def)

lemma abort_on_save:
  assumes "isOnline s" and "\<not> isSyncing s" and "token s = Some tok" and "tok \<noteq> []"
    and "entriesToSync rid s \<noteq> []"
    and "push env tok (entriesToSync rid s) = Inr pushResponse"
    and "pull env tok (lastSyncTime s) = Inr pullResponse"
    and "saveEntries_fault env
           (mergeEntries (map (markPushed pushResponse (entriesToSync rid s)) (entries s))
              (pulledEntries pullResponse)) = Some err"
  shows "handleSync env rid s =
           s\<lparr>calls := calls s @ [Push tok (entriesToSync rid s), Pull tok (lastSyncTime s)],
             syncError := Some (error_text err)\<rparr>"
  using assms by (simp add: run_defs error_text_def)

lemma store_consistent_preserved:
  assumes d: "distinct (map record_id (entries s))" and c: "store_consistent s"
  shows "distinct (map record_id (entries (handleSync env rid s))) \<and>
         store_consistent (handleSync env rid s)"
proof (cases "committed env rid s")
  case False
  from not_committed_frame [OF False] d c show ?thesis
    by (simp add: store_consistent_def)
next
  case True
  then obtain tok pushResponse pullResponse where
    m: "merged_by env rid s =
           Some (mergeEntries (map (markPushed pushResponse (entriesToSync rid s)) (entries s))
                   (pulledEntries pullResponse))"
    by (rule committedE)
  define merged where
    "merged = mergeEntries (map (markPushed pushResponse (entriesToSync rid s)) (entries s))
                (pulledEntries pullResponse)"
  from committed_result [OF True] m
  have e': "entries (handleSync env rid s) = merged"
    and d': "db_entries (handleSync env rid s) = saveEntries merged (db_entries s)"
    by (auto simp: merged_def)
  have "map record_id (map (markPushed pushResponse (entriesToSync rid s)) (entries s)) =
        map record_id (entries s)"
    by simp
  with d have dm: "distinct (map record_id merged)"
    unfolding merged_def by (simp add: distinct_mergeEntries del: map_map)
  then show ?thesis
    unfolding e' d' store_consistent_def
    by (simp add: saveEntries_consistent store_consistent_def e' d')
qed

lemma abort_on_state_write:
  assumes "isOnline s" and "\<not> isSyncing s" and "token s = Some tok" and "tok \<noteq> []"
    and "entriesToSync rid s \<noteq> []"
    and "push env tok (entriesToSync rid s) = Inr pushResponse"
    and "pull env tok (lastSyncTime s) = Inr pullResponse"
    and "saveEntries_fault env
           (mergeEntries (map (markPushed pushResponse (entriesToSync rid s)) (entries s))
              (pulledEntries pullResponse)) = None"
    and "setAppState_fault env ''lastSyncTime'' (now env) = Some err"
  shows "handleSync env rid s =
           s\<lparr>calls := calls s @ [Push tok (entriesToSync rid s), Pull tok (lastSyncTime s)],
             syncError := Some (error_text err),
             db_entries :=
               saveEntries
                 (mergeEntries (map (markPushed pushResponse (entriesToSync rid s)) (entries s))
                    (pulledEntries pullResponse)) (db_entries s),
             entries :=
               mergeEntries (map (markPushed pushResponse (entriesToSync rid s)) (entries s))
                 (pulledEntries pullResponse),
             lastSyncTime := Some (now env)\<rparr>"
  using assms by (simp add: run_defs error_text_def)

text \<open>
  A run during which nothing else writes the component: the records of an identifier
  outside the batch and the pull response stay as they were, and no identifier is lost.
\<close>

lemma run_frame_alone:
  "(\<forall>X. X \<notin> record_id ` set (entriesToSync rid s) \<and> X \<notin> record_id ` set (pulled_by env s) \<longrightarrow>
        filter (\<lambda>e. record_id e = X) (entries (handleSync env rid s)) =
          filter (\<lambda>e. record_id e = X) (entries s) \<and>
        (store_consistent s \<longrightarrow> db_entries (handleSync env rid s) X = db_entries s X)) \<and>
   record_id ` set (entries s) \<subseteq> record_id ` set (entries (handleSync env rid s)) \<and>
   dom (db_entries s) \<subseteq> dom (db_entries (handleSync env rid s))"
proof (cases "committed env rid s")
  case False
  from not_committed_frame [OF False] show ?thesis by simp
next
  case True
  then obtain tok pushResponse pullResponse where
    tok: "token s = Some tok"
    and pl: "pull env tok (lastSyncTime s) = Inr pullResponse"
    and m: "merged_by env rid s =
           Some (mergeEntries (map (markPushed pushResponse (entriesToSync rid s)) (entries s))
                   (pulledEntries pullResponse))"
    by (rule committedE)
  define merged where
    "merged = mergeEntries (map (markPushed pushResponse (entriesToSync rid s)) (entries s))
                (pulledEntries pullResponse)"
  from committed_result [OF True] m
  have e': "entries (handleSync env rid s) = merged"
    and d': "db_entries (handleSync env rid s) = saveEntries merged (db_entries s)"
    by (auto simp: merged_def)
  have pb: "pulled_by env s = pulledEntries pullResponse"
    using tok pl by (simp add: pulled_by_def)
  have frame: "filter (\<lambda>e. record_id e = X) merged = filter (\<lambda>e. record_id e = X) (entries s)"
    if "X \<notin> record_id ` set (entriesToSync rid s)" "X \<notin> record_id ` set (pulled_by env s)" for X
    using that unfolding merged_def pb by (rule merged_frame)
  have keep: "record_id ` set (entries s) \<subseteq> record_id ` set merged"
  proof -
    have "record_id ` set (map (markPushed pushResponse (entriesToSync rid s)) (entries s))
            = record_id ` set (entries s)"
      by (simp add: image_image)
    then show ?thesis
      unfolding merged_def
      using ids_mergeEntries_subset
        [of "map (markPushed pushResponse (entriesToSync rid s)) (entries s)"
            "pulledEntries pullResponse"]
      by simp
  qed
  show ?thesis
    unfolding e' d'
    using frame keep dom_saveEntries [of "db_entries s" merged]
    by (auto simp: store_consistent_def saveEntries_frame)
qed

subsection \<open>The event loop\<close>

text \<open>
  The events of an invocation that runs alone, through a handler of the last render, lead
  to the state that \<open>handleSync\<close> computes; and a handler rendered while the flag is up
  does nothing.
\<close>

lemma engine_run_Cons: "engine_run (ev # evs) e = engine_run evs (engine_step e ev)"
  by (simp add: engine_run_def)

lemma engine_run_Nil: "engine_run [] e = e"
  by (simp add: engine_run_def)

lemma settle_idle:
  "settle i x \<lparr>comp = c, rendered = h, running = []\<rparr> = \<lparr>comp = c, rendered = h, running = []\<rparr>"
  by (simp add: settle_def)

lemma settle_single:
  "settle 0 x \<lparr>comp = c, rendered = h, running = [a]\<rparr> =
     (case resume a x c of
        None \<Rightarrow> \<lparr>comp = c, rendered = h, running = [a]\<rparr>
      | Some (s', None) \<Rightarrow> \<lparr>comp = s', rendered = h, running = []\<rparr>
      | Some (s', Some a') \<Rightarrow> \<lparr>comp = s', rendered = h, running = [a']\<rparr>)"
  by (simp add: settle_def split: option.splits)

lemma invoke_starts:
  assumes "isOnline s" and "\<not> isSyncing s" and "token s = Some tok" and "tok \<noteq> []"
    and "entriesToSync rid s \<noteq> []"
  shows "invoke rid (fresh s) =
           \<lparr>comp = s\<lparr>isSyncing := True, syncError := None,
                       calls := calls s @ [Push tok (entriesToSync rid s)]\<rparr>,
            rendered = s,
            running = [AwaitPush tok (entriesToSync rid s) (entries s) (lastSyncTime s)]\<rparr>"
  using assms by (simp add: invoke_def fresh_def Let_def)

lemma invoke_after_render: "isSyncing (comp e) \<Longrightarrow> invoke rid (render e) = render e"
  by (simp add: invoke_def render_def)

lemma engine_run_alone:
  "engine_run [Invoke rid, Settle 0 a, Settle 0 b, Settle 0 c, Settle 0 d] e =
     settle 0 d (settle 0 c (settle 0 b (settle 0 a (invoke rid e))))"
  by (simp add: engine_run_def)

lemma alone_Some:
  "token s = Some tok \<Longrightarrow> push env tok (entriesToSync rid s) = pushed \<Longrightarrow>
   pull env tok (lastSyncTime s) = pulled \<Longrightarrow>
   alone env rid s =
     [Invoke rid, Settle 0 (PushSettled pushed), Settle 0 (PullSettled pulled),
      Settle 0 (SaveEntriesSettled
        (saveEntries_fault env
           (case (pushed, pulled) of
              (Inr pushResponse, Inr pullResponse) \<Rightarrow>
                mergeEntries (map (markPushed pushResponse (entriesToSync rid s)) (entries s))
                  (pulledEntries pullResponse)
            | _ \<Rightarrow> [])) (now env)),
      Settle 0 (SetAppStateSettled (setAppState_fault env ''lastSyncTime'' (now env)))]"
  by (simp add: alone_def Let_def)

lemma handleSync_alone:
  "comp (engine_run (alone env rid s) (fresh s)) = handleSync env rid s \<and>
   running (engine_run (alone env rid s) (fresh s)) = []"
proof (cases "\<not> isOnline s \<or> isSyncing s \<or> \<not> truthy (token s)")
  case True
  then have "invoke rid (fresh s) = fresh s"
    by (auto simp: invoke_def fresh_def)
  moreover from True have "handleSync env rid s = s" by (rule handleSync_guard)
  ultimately show ?thesis
    by (cases "token s") (simp_all add: alone_def Let_def engine_run_def fresh_def settle_idle)
next
  case False
  then obtain tok where tok: "token s = Some tok" "tok \<noteq> []"
    using truthy_Some by blast
  from False have g: "isOnline s" "\<not> isSyncing s" by auto
  note al = alone_Some [OF tok(1) refl refl, of env rid]
  show ?thesis
  proof (cases "entriesToSync rid s = []")
    case True
    with g tok have "invoke rid (fresh s) =
        \<lparr>comp = handleSync env rid s, rendered = s, running = []\<rparr>"
      by (simp add: invoke_def fresh_def handleSync_def Let_def)
    then show ?thesis
      by (simp add: al engine_run_alone settle_idle)
  next
    case ne: False
    note st = invoke_starts [OF g tok ne]
    show ?thesis
    proof (cases "push env tok (entriesToSync rid s)")
      case (Inl err)
      with g tok ne have "handleSync env rid s =
          finally_block (catch_block err
            (s\<lparr>isSyncing := True, syncError := None,
               calls := calls s @ [Push tok (entriesToSync rid s)]\<rparr>))"
        by (simp add: handleSync_def sync_body_def Let_def)
      with Inl show ?thesis
        by (simp add: al engine_run_alone st settle_single settle_idle)
    next
      case (Inr pushResponse)
      note pushed = this
      show ?thesis
      proof (cases "pull env tok (lastSyncTime s)")
        case (Inl err)
        with g tok ne pushed have "handleSync env rid s =
          finally_block (catch_block err
            (s\<lparr>isSyncing := True, syncError := None,
               calls := calls s @ [Push tok (entriesToSync rid s), Pull tok (lastSyncTime s)]\<rparr>))"
          by (simp add: handleSync_def sync_body_def Let_def)
        with Inl pushed show ?thesis
          by (simp add: al engine_run_alone st settle_single settle_idle)
      next
        case (Inr pullResponse)
        note pulled = this
        define m where "m = mergeEntries
            (map (markPushed pushResponse (entriesToSync rid s)) (entries s))
            (pulledEntries pullResponse)"
        define s2 where "s2 = s\<lparr>isSyncing := True, syncError := None,
               calls := calls s @ [Push tok (entriesToSync rid s), Pull tok (lastSyncTime s)]\<rparr>"
        from g tok ne pushed pulled have hs: "handleSync env rid s =
            finally_block (commit_phase env pushResponse pullResponse
              (map (markPushed pushResponse (entriesToSync rid s)) (entries s)) s2)"
          by (simp add: handleSync_def sync_body_def s2_def Let_def)
        have e3: "settle 0 (PullSettled (Inr pullResponse))
                (settle 0 (PushSettled (Inr pushResponse)) (invoke rid (fresh s)))
              = \<lparr>comp = s2, rendered = s, running = [AwaitSaveEntries pushResponse m]\<rparr>"
          by (simp add: st settle_single s2_def m_def)
        show ?thesis
        proof (cases "saveEntries_fault env m")
          case (Some err)
          then show ?thesis
            unfolding hs al engine_run_alone pushed pulled
            by (simp add: e3 m_def [symmetric] settle_single settle_idle commit_phase_def)
        next
          case None
          show ?thesis
          proof (cases "setAppState_fault env ''lastSyncTime'' (now env)")
            case (Some err)
            with None show ?thesis
              unfolding hs al engine_run_alone pushed pulled
              by (simp add: e3 m_def [symmetric] settle_single settle_idle commit_phase_def)
          next
            case ok: None
            with None show ?thesis
              unfolding hs al engine_run_alone pushed pulled
              by (simp add: e3 m_def [symmetric] settle_single settle_idle commit_phase_def
                  finally_block_def Let_def del: show_nat.simps split: option.splits)
          qed
        qed
      qed
    qed
  qed
qed

subsection \<open>The scenarios\<close>

lemma r_ids: "record_id r1 = ''r1''" "record_id r2 = ''r2''" "record_id r1_server = ''r1''"
  "isPending r1 = Some True" "isPending r2 = Some False"
  by (simp_all add: r1_def r2_def r1_server_def)

lemma gate_guard:
  "isOnline gate_state" "\<not> isSyncing gate_state" "token gate_state = Some ''tok''"
  "lastSyncTime gate_state = Some 100" "entries gate_state = [r1, r2]" "calls gate_state = []"
  by (simp_all add: gate_state_def)

lemma gate_batch: "entriesToSync None gate_state = [r1]"
  by (simp add: entriesToSync_def pendingEntries_def gate_state_def r1_def r2_def)


lemma calm_commits: "committed calm None gate_state"
  by (simp add: committed_def merged_by_def gate_batch gate_guard calm_def)

lemma pull_down_aborts: "\<not> committed pull_down None gate_state"
  by (simp add: committed_def merged_by_def gate_batch gate_guard pull_down_def calm_def)

lemma unlisted_commits: "committed rejects_unlisted None gate_state"
  by (simp add: committed_def merged_by_def gate_batch gate_guard rejects_unlisted_def calm_def)

lemma listed_commits: "committed rejects_listed None gate_state"
  by (simp add: committed_def merged_by_def gate_batch gate_guard rejects_listed_def calm_def)

lemma listed_pulls_nothing: "pulled_by rejects_listed gate_state = []"
  by (simp add: pulled_by_def gate_guard rejects_listed_def calm_def pulledEntries_def)

lemma r3_facts: "record_id r3 = ''r3''" "newEntry r3 = r3"
  by (simp_all add: r3_def newEntry_def)

lemma marked_gate:
  "markPushed \<lparr>success = True, accepted = 1, rejected = 0,
                 rejected_ids = None, message = ''ok''\<rparr> [r1] r1 = r1\<lparr>isPending := Some False\<rparr>"
  "markPushed \<lparr>success = True, accepted = 1, rejected = 0,
                 rejected_ids = None, message = ''ok''\<rparr> [r1] r2 = r2"
  by (simp_all add: markPushed_def r_ids)

lemma fresh_gate_twice:
  "engine_run [Invoke None, Invoke None] (fresh gate_state) =
     \<lparr>comp = gate_state\<lparr>isSyncing := True, syncError := None,
                         calls := [Push ''tok'' [r1], Push ''tok'' [r1]]\<rparr>,
      rendered = gate_state,
      running = [AwaitPush ''tok'' [r1] [r1, r2] (Some 100),
                 AwaitPush ''tok'' [r1] [r1, r2] (Some 100)]\<rparr>"
  by (simp add: engine_run_def invoke_def fresh_def gate_guard gate_batch Let_def)

lemma logged_mid_run:
  "engine_run [Invoke None, LogEntry r3, Settle 1 (SaveEntrySettled None)] (fresh gate_state) =
     \<lparr>comp = gate_state\<lparr>isSyncing := True, syncError := None,
                         calls := [Push ''tok'' [r1]],
                         db_entries := (db_entries gate_state)(''r3'' \<mapsto> r3),
                         entries := [r3, r1, r2]\<rparr>,
      rendered = gate_state,
      running = [AwaitPush ''tok'' [r1] [r1, r2] (Some 100)]\<rparr>"
  by (simp add: engine_run_def invoke_def logEntry_def settle_def fresh_def gate_guard gate_batch
      r3_facts put_entry_def Let_def)

subsection \<open>The claims\<close>

text \<open>
  Claim C1. A push that throws aborts the run before the pull: the entries with their
  pending flags, the watermark, and both object stores are what they were, the only
  gateway call is the push, and the error is shown as the outcome of the run.
\<close>

theorem push_failure_aborts_run:
  assumes "isOnline s" and "\<not> isSyncing s" and "token s = Some tok" and "tok \<noteq> []"
    and "entriesToSync rid s \<noteq> []"
    and "push env tok (entriesToSync rid s) = Inl err"
  shows "entries (handleSync env rid s) = entries s \<and>
         pendingEntries (handleSync env rid s) = pendingEntries s \<and>
         lastSyncTime (handleSync env rid s) = lastSyncTime s \<and>
         db_entries (handleSync env rid s) = db_entries s \<and>
         db_app_state (handleSync env rid s) = db_app_state s \<and>
         calls (handleSync env rid s) = calls s @ [Push tok (entriesToSync rid s)] \<and>
         syncError (handleSync env rid s) = Some (error_text err) \<and>
         \<not> isSyncing (handleSync env rid s)"
  using assms by (simp add: run_defs pendingEntries_def error_text_def)

theorem push_failure_aborts_run_witness:
  "isOnline gate_state \<and> \<not> isSyncing gate_state \<and> token gate_state = Some ''tok'' \<and>
   entriesToSync None gate_state \<noteq> [] \<and>
   push push_down ''tok'' (entriesToSync None gate_state) = Inl (Error ''Failed to fetch'') \<and>
   entries (handleSync push_down None gate_state) = [r1, r2] \<and>
   lastSyncTime (handleSync push_down None gate_state) = Some 100 \<and>
   calls (handleSync push_down None gate_state) = [Push ''tok'' [r1]] \<and>
   syncError (handleSync push_down None gate_state) = Some ''Failed to fetch''"
proof -
  have h4: "''tok'' \<noteq> []" by simp
  have h5: "entriesToSync None gate_state \<noteq> []" by (simp add: gate_batch)
  have h6: "push push_down ''tok'' (entriesToSync None gate_state) = Inl (Error ''Failed to fetch'')"
    by (simp add: push_down_def calm_def)
  from push_failure_aborts_run [OF gate_guard(1-3) h4 h5 h6] h5 h6 show ?thesis
    by (simp add: gate_batch gate_guard error_text_def)
qed

text \<open>
  Claim C2, as the code has it. The watermark, in the component and in the application
  state table, changes only in a run that commits: push and pull have answered and the
  merged list has been written to the entries store. Its new value is then the reading
  of the clock after the commit (the pull response carries no coverage). A run that
  does not commit leaves it alone. It does not move backward as long as the clock does
  not read earlier than the watermark.
\<close>

theorem watermark_advances_after_commit:
  "(lastSyncTime (handleSync env rid s) \<noteq> lastSyncTime s \<longrightarrow>
      committed env rid s \<and> lastSyncTime (handleSync env rid s) = Some (now env)) \<and>
   (db_app_state (handleSync env rid s) \<noteq> db_app_state s \<longrightarrow>
      committed env rid s \<and> lastSyncTime (handleSync env rid s) = Some (now env) \<and>
      db_app_state (handleSync env rid s) = (db_app_state s)(''lastSyncTime'' \<mapsto> now env)) \<and>
   (committed env rid s \<longrightarrow>
      (\<exists>m. merged_by env rid s = Some m \<and>
           db_entries (handleSync env rid s) = saveEntries m (db_entries s)) \<and>
      lastSyncTime (handleSync env rid s) = Some (now env)) \<and>
   (\<not> committed env rid s \<longrightarrow>
      lastSyncTime (handleSync env rid s) = lastSyncTime s \<and>
      db_app_state (handleSync env rid s) = db_app_state s) \<and>
   (\<forall>w. lastSyncTime s = Some w \<and> w \<le> now env \<longrightarrow>
      (\<exists>w'. lastSyncTime (handleSync env rid s) = Some w' \<and> w \<le> w'))"
proof (cases "committed env rid s")
  case True
  from committed_result [OF True] show ?thesis
    using True by (auto split: if_splits)
next
  case False
  from not_committed_frame [OF False] show ?thesis
    using False by auto
qed

theorem watermark_advances_after_commit_witness:
  "committed calm None gate_state \<and> lastSyncTime gate_state = Some 100 \<and> 100 \<le> now calm \<and>
   lastSyncTime (handleSync calm None gate_state) = Some 200 \<and>
   \<not> committed pull_down None gate_state \<and>
   lastSyncTime (handleSync pull_down None gate_state) = Some 100"
proof -
  from watermark_advances_after_commit [of calm None gate_state] calm_commits
  have a: "lastSyncTime (handleSync calm None gate_state) = Some (now calm)" by blast
  from watermark_advances_after_commit [of pull_down None gate_state] pull_down_aborts
  have b: "lastSyncTime (handleSync pull_down None gate_state) = lastSyncTime gate_state"
    by blast
  from a b calm_commits pull_down_aborts show ?thesis
    by (simp add: gate_guard calm_def)
qed

theorem watermark_moves_backward:
  "lastSyncTime gate_state = Some 100 \<and>
   lastSyncTime (handleSync clock_back None gate_state) = Some 50"
  by (simp add: run_defs gate_batch gate_guard clock_back_def calm_def)

text \<open>
  Claim C3. After the merge, the local record of an identifier that the pull response
  carries is the pulled record with \<open>isPending\<close> false and nothing else changed
  (the last such record, should the response repeat the identifier); whatever the local
  record held is gone. Where a local record existed the number of records with the
  identifier is unchanged, and where none existed there is exactly one, the new one.
\<close>

theorem server_wins_merge:
  "X \<in> record_id ` set pulled \<longrightarrow>
     find (\<lambda>e. record_id e = X) (mergeEntries localEntries pulled) =
       Some ((last (filter (\<lambda>e. record_id e = X) pulled))\<lparr>isPending := Some False\<rparr>) \<and>
     length (filter (\<lambda>e. record_id e = X) (mergeEntries localEntries pulled)) =
       (if X \<in> record_id ` set localEntries
        then length (filter (\<lambda>e. record_id e = X) localEntries) else 1)"
  using find_mergeEntries_pulled [of X pulled localEntries]
    count_mergeEntries [of X localEntries pulled]
  by (simp add: synced_def)

theorem server_wins_merge_witness:
  "''r1'' \<in> record_id ` set [r1_server] \<and>
   find (\<lambda>e. record_id e = ''r1'') (mergeEntries [r1, r2] [r1_server]) =
     Some (r1_server\<lparr>isPending := Some False\<rparr>) \<and>
   length (filter (\<lambda>e. record_id e = ''r1'') (mergeEntries [r1, r2] [r1_server])) = 1 \<and>
   ''r1'' \<in> record_id ` set [r1_server] \<and> ''r1'' \<notin> record_id ` set [r2] \<and>
   find (\<lambda>e. record_id e = ''r1'') (mergeEntries [r2] [r1_server]) =
     Some (r1_server\<lparr>isPending := Some False\<rparr>) \<and>
   length (filter (\<lambda>e. record_id e = ''r1'') (mergeEntries [r2] [r1_server])) = 1"
  using server_wins_merge [of "''r1''" "[r1_server]" "[r1, r2]"]
    server_wins_merge [of "''r1''" "[r1_server]" "[r2]"]
  by (simp add: r_ids)

text \<open>
  Claim C4, as the code has it. When the push response carries no \<open>rejected_ids\<close>,
  whatever its \<open>rejected\<close> count, a run that commits leaves every record whose
  identifier is in the batch with \<open>isPending\<close> false; a run that does not commit leaves
  the entries as they were.
\<close>

theorem batch_synced_when_rejections_unlisted:
  assumes "token s = Some tok"
    and "push env tok (entriesToSync rid s) = Inr pushResponse"
    and "rejected_ids pushResponse = None"
  shows "(committed env rid s \<longrightarrow>
            (\<forall>e\<in>set (entries (handleSync env rid s)).
               record_id e \<in> record_id ` set (entriesToSync rid s) \<longrightarrow> isPending e = Some False)) \<and>
         (\<not> committed env rid s \<longrightarrow> entries (handleSync env rid s) = entries s)"
proof (intro conjI impI)
  assume c: "committed env rid s"
  then obtain tok' pushResponse' pullResponse where
    "token s = Some tok'"
    and "push env tok' (entriesToSync rid s) = Inr pushResponse'"
    and m: "merged_by env rid s =
           Some (mergeEntries (map (markPushed pushResponse' (entriesToSync rid s)) (entries s))
                   (pulledEntries pullResponse))"
    by (rule committedE)
  with assms have pr: "pushResponse' = pushResponse" by simp
  from committed_result [OF c] m pr
  have e': "entries (handleSync env rid s) =
              mergeEntries (map (markPushed pushResponse (entriesToSync rid s)) (entries s))
                (pulledEntries pullResponse)"
    by auto
  show "\<forall>e\<in>set (entries (handleSync env rid s)).
          record_id e \<in> record_id ` set (entriesToSync rid s) \<longrightarrow> isPending e = Some False"
  proof (intro ballI impI)
    fix e
    assume e: "e \<in> set (entries (handleSync env rid s))"
      and b: "record_id e \<in> record_id ` set (entriesToSync rid s)"
    from e e' set_mergeEntries
      [of "map (markPushed pushResponse (entriesToSync rid s)) (entries s)"
          "pulledEntries pullResponse"]
    have "e \<in> synced ` set (pulledEntries pullResponse) \<or>
          e \<in> set (map (markPushed pushResponse (entriesToSync rid s)) (entries s))"
      by auto
    then show "isPending e = Some False"
    proof
      assume "e \<in> synced ` set (pulledEntries pullResponse)"
      then show ?thesis by (auto simp: synced_def)
    next
      assume "e \<in> set (map (markPushed pushResponse (entriesToSync rid s)) (entries s))"
      then obtain e0 where "e = markPushed pushResponse (entriesToSync rid s) e0" by auto
      with b assms(3) show ?thesis by (simp add: markPushed_unlisted)
    qed
  qed
next
  assume "\<not> committed env rid s"
  then show "entries (handleSync env rid s) = entries s" by (rule not_committed_frame)
qed

theorem batch_synced_when_rejections_unlisted_witness:
  "token gate_state = Some ''tok'' \<and>
   push rejects_unlisted ''tok'' (entriesToSync None gate_state) =
     Inr \<lparr>success = True, accepted = 0, rejected = 1, rejected_ids = None,
          message = ''conflict''\<rparr> \<and>
   committed rejects_unlisted None gate_state \<and>
   list_all (\<lambda>e. isPending e = Some False)
     (filter (\<lambda>e. record_id e \<in> record_id ` set (entriesToSync None gate_state))
        (entries (handleSync rejects_unlisted None gate_state)))"
proof -
  have p: "push rejects_unlisted ''tok'' (entriesToSync None gate_state) =
     Inr \<lparr>success = True, accepted = 0, rejected = 1, rejected_ids = None,
          message = ''conflict''\<rparr>"
    by (simp add: rejects_unlisted_def calm_def)
  from batch_synced_when_rejections_unlisted [OF gate_guard(3) p] unlisted_commits p
  show ?thesis by (simp add: gate_guard list_all_iff)
qed

theorem unlisted_rejection_marked_synced:
  "push rejects_unlisted ''tok'' [r1] =
     Inr \<lparr>success = True, accepted = 0, rejected = 1, rejected_ids = None,
          message = ''conflict''\<rparr> \<and>
   entriesToSync None gate_state = [r1] \<and> isPending r1 = Some True \<and>
   entries (handleSync rejects_unlisted None gate_state) = [r1\<lparr>isPending := Some False\<rparr>, r2]"
  by (simp add: run_defs gate_batch gate_guard rejects_unlisted_def calm_def
      markPushed_def pulledEntries_def r_ids)




text \<open>
  Claim C6, as the code has it. When the push response lists rejected identifiers, the
  run goes on to the pull. A rejected record of the batch is pending, and the records
  of its identifier are unchanged unless the pull response carries that identifier.
  A run that commits advances the watermark to the reading of the clock, and shows, when
  the list is not empty and the watermark is stored, the warning with the length of the
  list.
\<close>

theorem listed_rejection_outcome:
  assumes "isOnline s" and "\<not> isSyncing s" and "token s = Some tok" and "tok \<noteq> []"
    and "entriesToSync rid s \<noteq> []"
    and "push env tok (entriesToSync rid s) = Inr pushResponse"
    and "rejected_ids pushResponse = Some ids"
  shows "calls (handleSync env rid s) =
           calls s @ [Push tok (entriesToSync rid s), Pull tok (lastSyncTime s)] \<and>
         (\<forall>e\<in>set (entriesToSync rid s).
            record_id e \<in> set ids \<and> record_id e \<notin> record_id ` set (pulled_by env s) \<longrightarrow>
              isPending e = Some True \<and>
              filter (\<lambda>x. record_id x = record_id e) (entries (handleSync env rid s)) =
                filter (\<lambda>x. record_id x = record_id e) (entries s)) \<and>
         (committed env rid s \<longrightarrow> lastSyncTime (handleSync env rid s) = Some (now env)) \<and>
         (committed env rid s \<and> ids \<noteq> [] \<and>
          setAppState_fault env ''lastSyncTime'' (now env) = None \<longrightarrow>
            syncError (handleSync env rid s) =
              Some (show_nat (length ids) @ '' entries were rejected due to conflicts''))"
proof (intro conjI ballI impI)
  show "calls (handleSync env rid s) =
          calls s @ [Push tok (entriesToSync rid s), Pull tok (lastSyncTime s)]"
    using assms(1-6) by (rule calls_after_push)
next
  fix e
  assume e: "e \<in> set (entriesToSync rid s)"
    and r: "record_id e \<in> set ids \<and> record_id e \<notin> record_id ` set (pulled_by env s)"
  from e show "isPending e = Some True" by (simp add: batch_pending)
  show "filter (\<lambda>x. record_id x = record_id e) (entries (handleSync env rid s)) =
          filter (\<lambda>x. record_id x = record_id e) (entries s)"
  proof (cases "committed env rid s")
    case False
    then show ?thesis by (simp add: not_committed_frame)
  next
    case True
    then obtain tok' pushResponse' pullResponse where
      t': "token s = Some tok'"
      and p': "push env tok' (entriesToSync rid s) = Inr pushResponse'"
      and pl: "pull env tok' (lastSyncTime s) = Inr pullResponse"
      and m: "merged_by env rid s =
             Some (mergeEntries (map (markPushed pushResponse' (entriesToSync rid s)) (entries s))
                     (pulledEntries pullResponse))"
      by (rule committedE)
    from t' p' assms have pr: "pushResponse' = pushResponse" by simp
    from t' pl have pb: "pulled_by env s = pulledEntries pullResponse"
      by (simp add: pulled_by_def)
    from committed_result [OF True] m pr
    have "entries (handleSync env rid s) =
            mergeEntries (map (markPushed pushResponse (entriesToSync rid s)) (entries s))
              (pulledEntries pullResponse)"
      by auto
    with r pb assms(7) show ?thesis
      by (simp add: filter_mergeEntries filter_map_rejected)
  qed
next
  assume "committed env rid s"
  from committed_result [OF this]
  show "lastSyncTime (handleSync env rid s) = Some (now env)" by auto
next
  assume "committed env rid s \<and> ids \<noteq> [] \<and>
          setAppState_fault env ''lastSyncTime'' (now env) = None"
  with assms show "syncError (handleSync env rid s) =
      Some (show_nat (length ids) @ '' entries were rejected due to conflicts'')"
    using syncError_rejected [of env rid s tok pushResponse ids] by simp
qed

theorem listed_rejection_outcome_witness:
  "isOnline gate_state \<and> \<not> isSyncing gate_state \<and> token gate_state = Some ''tok'' \<and>
   entriesToSync None gate_state = [r1] \<and>
   push rejects_listed ''tok'' (entriesToSync None gate_state) =
     Inr \<lparr>success = True, accepted = 0, rejected = 1, rejected_ids = Some [''r1''],
          message = ''conflict''\<rparr> \<and>
   committed rejects_listed None gate_state \<and>
   calls (handleSync rejects_listed None gate_state) =
     [Push ''tok'' [r1], Pull ''tok'' (Some 100)] \<and>
   filter (\<lambda>x. record_id x = ''r1'') (entries (handleSync rejects_listed None gate_state)) = [r1] \<and>
   lastSyncTime (handleSync rejects_listed None gate_state) = Some 200 \<and>
   syncError (handleSync rejects_listed None gate_state) =
     Some ''1 entries were rejected due to conflicts''"
proof -
  have h4: "''tok'' \<noteq> []" by simp
  have h5: "entriesToSync None gate_state \<noteq> []" by (simp add: gate_batch)
  have p: "push rejects_listed ''tok'' (entriesToSync None gate_state) =
     Inr \<lparr>success = True, accepted = 0, rejected = 1, rejected_ids = Some [''r1''],
          message = ''conflict''\<rparr>"
    by (simp add: rejects_listed_def calm_def)
  have r: "rejected_ids \<lparr>success = True, accepted = 0, rejected = 1, rejected_ids = Some [''r1''],
          message = ''conflict''\<rparr> = Some [''r1'']"
    by simp
  have f: "setAppState_fault rejects_listed ''lastSyncTime'' (now rejects_listed) = None"
    and n: "now rejects_listed = 200"
    by (simp_all add: rejects_listed_def calm_def)
  from listed_rejection_outcome [OF gate_guard(1-3) h4 h5 p r] listed_commits f p
  show ?thesis
    by (simp add: gate_batch gate_guard r_ids listed_pulls_nothing n)
qed

theorem listed_rejection_advances_watermark:
  "push rejects_listed ''tok'' [r1] =
     Inr \<lparr>success = True, accepted = 0, rejected = 1, rejected_ids = Some [''r1''],
          message = ''conflict''\<rparr> \<and>
   entriesToSync None gate_state = [r1] \<and>
   lastSyncTime gate_state = Some 100 \<and>
   lastSyncTime (handleSync rejects_listed None gate_state) = Some 200 \<and>
   push rejects_and_returns ''tok'' [r1] = push rejects_listed ''tok'' [r1] \<and>
   entries (handleSync rejects_and_returns None gate_state) =
     [r1_server\<lparr>isPending := Some False\<rparr>, r2]"
  by (simp add: run_defs gate_batch gate_guard rejects_and_returns_def rejects_listed_def calm_def
      markPushed_def pulledEntries_def r_ids mergeEntries_def mergeOne_def)

text \<open>
  Claim C7. Merging the same pulled records a second time changes nothing, in the merged
  list and in the entries store written from it.
\<close>

theorem merge_idempotent:
  "mergeEntries (mergeEntries S R) R = mergeEntries S R \<and>
   saveEntries (mergeEntries (mergeEntries S R) R) (saveEntries (mergeEntries S R) store) =
     saveEntries (mergeEntries S R) store"
proof -
  have idem: "mergeEntries (mergeEntries S R) R = mergeEntries S R"
  proof (induction R arbitrary: S)
    case Nil
    then show ?case by simp
  next
    case (Cons p ps)
    define N where "N = mergeOne S p"
    define T where "T = mergeEntries N ps"
    have IH: "mergeEntries T ps = T"
      unfolding T_def by (rule Cons.IH)
    have "mergeEntries (mergeOne T p) ps = T"
    proof (cases "record_id p \<in> record_id ` set ps")
      case True
      have "record_id p \<in> record_id ` set N"
        using ids_mergeOne [of S p] unfolding N_def by (metis list.set_intros(1) set_map)
      then have "record_id p \<in> record_id ` set T"
        unfolding T_def using ids_mergeEntries_subset [of N ps] by auto
      then have "mergeOne T p = replaceFirst (record_id p) (synced p) T"
        by (simp add: mergeOne_eq)
      with True IH show ?thesis
        by (simp add: mergeEntries_absorbs)
    next
      case False
      then have "find (\<lambda>e. record_id e = record_id p) T = find (\<lambda>e. record_id e = record_id p) N"
        unfolding T_def by (rule find_mergeEntries_other)
      also have "\<dots> = Some (synced p)"
        unfolding N_def by (simp add: find_mergeOne)
      finally have "mergeOne T p = T" by (rule mergeOne_fixed)
      with IH show ?thesis by simp
    qed
    then show ?case by (simp add: N_def T_def)
  qed
  then show ?thesis by (simp add: saveEntries_twice)
qed

theorem merge_idempotent_witness:
  "mergeEntries [r1, r2] [r1_server] = [r1_server\<lparr>isPending := Some False\<rparr>, r2] \<and>
   mergeEntries (mergeEntries [r1, r2] [r1_server]) [r1_server] =
     [r1_server\<lparr>isPending := Some False\<rparr>, r2]"
proof -
  have a: "mergeEntries [r1, r2] [r1_server] = [r1_server\<lparr>isPending := Some False\<rparr>, r2]"
    by (simp add: mergeOne_def r_ids)
  from merge_idempotent [of "[r1, r2]" "[r1_server]"] a show ?thesis by simp
qed

text \<open>
  Claim C8 does not hold of the code. The guard of \<open>handleSync\<close> reads the
  \<open>isSyncing\<close> that the render of the handler saw, and \<open>setIsSyncing(true)\<close> does
  not change it: two invocations of the same handler both pass the guard, two runs are
  suspended together, and each makes its push and its pull. Once the component has
  rendered again, the second invocation does nothing.
\<close>

theorem same_handler_invoked_twice:
  "running (engine_run [Invoke None, Invoke None] (fresh gate_state)) =
     [AwaitPush ''tok'' [r1] [r1, r2] (Some 100), AwaitPush ''tok'' [r1] [r1, r2] (Some 100)] \<and>
   calls (comp (engine_run
     [Invoke None, Invoke None,
      Settle 0 (PushSettled (Inr \<lparr>success = True, accepted = 1, rejected = 0,
                                  rejected_ids = None, message = ''ok''\<rparr>)),
      Settle 1 (PushSettled (Inr \<lparr>success = True, accepted = 1, rejected = 0,
                                  rejected_ids = None, message = ''ok''\<rparr>)),
      Settle 0 (PullSettled (Inr \<lparr>pr_entries = Some [], pr_count = 0\<rparr>)),
      Settle 1 (PullSettled (Inr \<lparr>pr_entries = Some [], pr_count = 0\<rparr>))]
     (fresh gate_state))) =
     [Push ''tok'' [r1], Push ''tok'' [r1], Pull ''tok'' (Some 100), Pull ''tok'' (Some 100)] \<and>
   calls (comp (engine_run [Invoke None, Render, Invoke None] (fresh gate_state))) =
     [Push ''tok'' [r1]]"
proof -
  have two: "engine_run
     [Invoke None, Invoke None,
      Settle 0 (PushSettled (Inr \<lparr>success = True, accepted = 1, rejected = 0,
                                  rejected_ids = None, message = ''ok''\<rparr>)),
      Settle 1 (PushSettled (Inr \<lparr>success = True, accepted = 1, rejected = 0,
                                  rejected_ids = None, message = ''ok''\<rparr>)),
      Settle 0 (PullSettled (Inr \<lparr>pr_entries = Some [], pr_count = 0\<rparr>)),
      Settle 1 (PullSettled (Inr \<lparr>pr_entries = Some [], pr_count = 0\<rparr>))]
     (fresh gate_state) =
     foldl engine_step (engine_run [Invoke None, Invoke None] (fresh gate_state))
      [Settle 0 (PushSettled (Inr \<lparr>success = True, accepted = 1, rejected = 0,
                                  rejected_ids = None, message = ''ok''\<rparr>)),
      Settle 1 (PushSettled (Inr \<lparr>success = True, accepted = 1, rejected = 0,
                                  rejected_ids = None, message = ''ok''\<rparr>)),
      Settle 0 (PullSettled (Inr \<lparr>pr_entries = Some [], pr_count = 0\<rparr>)),
      Settle 1 (PullSettled (Inr \<lparr>pr_entries = Some [], pr_count = 0\<rparr>))]"
    by (simp add: engine_run_def)
  have a: "calls (comp (foldl engine_step (engine_run [Invoke None, Invoke None] (fresh gate_state))
      [Settle 0 (PushSettled (Inr \<lparr>success = True, accepted = 1, rejected = 0,
                                  rejected_ids = None, message = ''ok''\<rparr>)),
      Settle 1 (PushSettled (Inr \<lparr>success = True, accepted = 1, rejected = 0,
                                  rejected_ids = None, message = ''ok''\<rparr>)),
      Settle 0 (PullSettled (Inr \<lparr>pr_entries = Some [], pr_count = 0\<rparr>)),
      Settle 1 (PullSettled (Inr \<lparr>pr_entries = Some [], pr_count = 0\<rparr>))])) =
     [Push ''tok'' [r1], Push ''tok'' [r1], Pull ''tok'' (Some 100), Pull ''tok'' (Some 100)]"
    unfolding fresh_gate_twice
    by (simp add: settle_def)
  have b: "calls (comp (engine_run [Invoke None, Render, Invoke None] (fresh gate_state))) =
     [Push ''tok'' [r1]]"
    by (simp add: engine_run_def invoke_def render_def fresh_def gate_guard gate_batch Let_def)
  from a b show ?thesis
    unfolding two by (simp add: fresh_gate_twice)
qed

text \<open>
  Claim C9 does not hold of the code. A run builds its merged list from the \<open>entries\<close>
  that the render of its handler saw, and \<open>setEntries(mergedEntries)\<close> stores that
  list over whatever the component holds by then: an entry logged while the run is
  suspended, whose identifier is neither in the batch nor in the pull response, is in
  the component before the commit and gone after it. It stays in the entries store,
  but the pending set is read from the component, so the next run does not push it.
\<close>

theorem entry_logged_during_run_is_dropped:
  "entriesToSync None gate_state = [r1] \<and>
   entries (comp (engine_run
     [Invoke None, LogEntry r3, Settle 1 (SaveEntrySettled None)] (fresh gate_state))) =
     [r3, r1, r2] \<and>
   entries (comp (engine_run
     [Invoke None, LogEntry r3, Settle 1 (SaveEntrySettled None),
      Settle 0 (PushSettled (Inr \<lparr>success = True, accepted = 1, rejected = 0,
                                  rejected_ids = None, message = ''ok''\<rparr>)),
      Settle 0 (PullSettled (Inr \<lparr>pr_entries = Some [], pr_count = 0\<rparr>)),
      Settle 0 (SaveEntriesSettled None 200),
      Settle 0 (SetAppStateSettled None)] (fresh gate_state))) =
     [r1\<lparr>isPending := Some False\<rparr>, r2] \<and>
   db_entries (comp (engine_run
     [Invoke None, LogEntry r3, Settle 1 (SaveEntrySettled None),
      Settle 0 (PushSettled (Inr \<lparr>success = True, accepted = 1, rejected = 0,
                                  rejected_ids = None, message = ''ok''\<rparr>)),
      Settle 0 (PullSettled (Inr \<lparr>pr_entries = Some [], pr_count = 0\<rparr>)),
      Settle 0 (SaveEntriesSettled None 200),
      Settle 0 (SetAppStateSettled None)] (fresh gate_state))) ''r3'' = Some r3 \<and>
   calls (comp (engine_run
     [Invoke None, LogEntry r3, Settle 1 (SaveEntrySettled None),
      Settle 0 (PushSettled (Inr \<lparr>success = True, accepted = 1, rejected = 0,
                                  rejected_ids = None, message = ''ok''\<rparr>)),
      Settle 0 (PullSettled (Inr \<lparr>pr_entries = Some [], pr_count = 0\<rparr>)),
      Settle 0 (SaveEntriesSettled None 200),
      Settle 0 (SetAppStateSettled None),
      Render, Invoke None] (fresh gate_state))) =
     [Push ''tok'' [r1], Pull ''tok'' (Some 100)]"
proof -
  let ?log = "[Invoke None, LogEntry r3, Settle 1 (SaveEntrySettled None)]"
  let ?sync = "[Settle 0 (PushSettled (Inr \<lparr>success = True, accepted = 1, rejected = 0,
                                  rejected_ids = None, message = ''ok''\<rparr>)),
      Settle 0 (PullSettled (Inr \<lparr>pr_entries = Some [], pr_count = 0\<rparr>)),
      Settle 0 (SaveEntriesSettled None 200),
      Settle 0 (SetAppStateSettled None)]"
  have split: "engine_run (?log @ evs) e = foldl engine_step (engine_run ?log e) evs" for evs e
    by (simp add: engine_run_def)
  have fin: "foldl engine_step (engine_run ?log (fresh gate_state)) ?sync =
     \<lparr>comp = gate_state\<lparr>isSyncing := False, syncError := None,
                         calls := [Push ''tok'' [r1], Pull ''tok'' (Some 100)],
                         db_entries := saveEntries [r1\<lparr>isPending := Some False\<rparr>, r2]
                                         ((db_entries gate_state)(''r3'' \<mapsto> r3)),
                         entries := [r1\<lparr>isPending := Some False\<rparr>, r2],
                         lastSyncTime := Some 200,
                         db_app_state := (db_app_state gate_state)(''lastSyncTime'' \<mapsto> 200)\<rparr>,
      rendered = gate_state, running = []\<rparr>"
    unfolding logged_mid_run
    by (simp add: settle_def marked_gate pulledEntries_def finally_block_def setAppState_def)
  have a: "entries (comp (engine_run ?log (fresh gate_state))) = [r3, r1, r2]"
    unfolding logged_mid_run by simp
  have b: "entries (comp (engine_run (?log @ ?sync) (fresh gate_state))) =
             [r1\<lparr>isPending := Some False\<rparr>, r2]"
    unfolding split fin by simp
  have c: "db_entries (comp (engine_run (?log @ ?sync) (fresh gate_state))) ''r3'' = Some r3"
    unfolding split fin by (simp add: saveEntries_def put_entry_def r_ids)
  have d: "calls (comp (engine_run (?log @ ?sync @ [Render, Invoke None]) (fresh gate_state))) =
             [Push ''tok'' [r1], Pull ''tok'' (Some 100)]"
    unfolding split foldl_append fin
    by (simp add: render_def invoke_def gate_state_def entriesToSync_def pendingEntries_def r_ids
        finally_block_def Let_def)
  from a b c d show ?thesis by (simp add: gate_batch)
qed

text \<open>
  Claim C10, as the code has it. When the push has answered and then the pull throws, or
  the transaction of \<open>saveEntries\<close> fails, the run changes neither the entries nor their
  pending flags, neither object store nor the watermark; it shows an error, lowers the
  flag, and the next run with the same argument pushes the same batch again. When
  instead the later write of the watermark (\<open>db.setAppState\<close>) fails, the merged list
  stays committed in the component and in the entries store and the watermark of the
  component is advanced; only the stored watermark is as it was, and the error is shown.
\<close>

theorem failure_after_push:
  assumes on: "isOnline s" and idle: "\<not> isSyncing s" and tok: "token s = Some tok"
    and ne: "tok \<noteq> []" and batch: "entriesToSync rid s \<noteq> []"
    and pushed: "push env tok (entriesToSync rid s) = Inr pushResponse"
  shows "((\<exists>err. pull env tok (lastSyncTime s) = Inl err) \<or>
          (\<exists>pullResponse err.
             pull env tok (lastSyncTime s) = Inr pullResponse \<and>
             saveEntries_fault env
               (mergeEntries (map (markPushed pushResponse (entriesToSync rid s)) (entries s))
                  (pulledEntries pullResponse)) = Some err) \<longrightarrow>
            entries (handleSync env rid s) = entries s \<and>
            pendingEntries (handleSync env rid s) = pendingEntries s \<and>
            db_entries (handleSync env rid s) = db_entries s \<and>
            db_app_state (handleSync env rid s) = db_app_state s \<and>
            lastSyncTime (handleSync env rid s) = lastSyncTime s \<and>
            syncError (handleSync env rid s) \<noteq> None \<and>
            \<not> isSyncing (handleSync env rid s) \<and>
            (\<forall>env'. \<exists>rest. calls (handleSync env' rid (handleSync env rid s)) =
                      calls (handleSync env rid s) @ Push tok (entriesToSync rid s) # rest)) \<and>
         (\<forall>pullResponse err.
            pull env tok (lastSyncTime s) = Inr pullResponse \<and>
            saveEntries_fault env
              (mergeEntries (map (markPushed pushResponse (entriesToSync rid s)) (entries s))
                 (pulledEntries pullResponse)) = None \<and>
            setAppState_fault env ''lastSyncTime'' (now env) = Some err \<longrightarrow>
              entries (handleSync env rid s) =
                mergeEntries (map (markPushed pushResponse (entriesToSync rid s)) (entries s))
                  (pulledEntries pullResponse) \<and>
              db_entries (handleSync env rid s) =
                saveEntries
                  (mergeEntries (map (markPushed pushResponse (entriesToSync rid s)) (entries s))
                     (pulledEntries pullResponse)) (db_entries s) \<and>
              lastSyncTime (handleSync env rid s) = Some (now env) \<and>
              db_app_state (handleSync env rid s) = db_app_state s \<and>
              syncError (handleSync env rid s) = Some (error_text err) \<and>
              \<not> isSyncing (handleSync env rid s))"
proof (rule conjI; intro allI impI)
  assume failed: "(\<exists>err. pull env tok (lastSyncTime s) = Inl err) \<or>
          (\<exists>pullResponse err.
             pull env tok (lastSyncTime s) = Inr pullResponse \<and>
             saveEntries_fault env
               (mergeEntries (map (markPushed pushResponse (entriesToSync rid s)) (entries s))
                  (pulledEntries pullResponse)) = Some err)"
  define s' where "s' = handleSync env rid s"
  from failed obtain err where
    eq: "s' = s\<lparr>calls := calls s @ [Push tok (entriesToSync rid s), Pull tok (lastSyncTime s)],
                 syncError := Some (error_text err)\<rparr>"
    unfolding s'_def
    using abort_on_pull [OF on idle tok ne batch pushed]
      abort_on_save [OF on idle tok ne batch pushed]
    by blast
  have same: "entries s' = entries s" "isOnline s'" "\<not> isSyncing s'" "token s' = Some tok"
    using on idle tok by (simp_all add: eq)
  have b': "entriesToSync rid s' = entriesToSync rid s"
    using same(1) by (rule entriesToSync_cong)
  have again: "\<exists>rest. calls (handleSync env' rid s') =
                 calls s' @ Push tok (entriesToSync rid s) # rest" for env'
    using calls_started [OF same(2,3,4) ne, of rid env'] batch b' by simp
  have "entries s' = entries s \<and> pendingEntries s' = pendingEntries s \<and>
        db_entries s' = db_entries s \<and> db_app_state s' = db_app_state s \<and>
        lastSyncTime s' = lastSyncTime s \<and> syncError s' \<noteq> None \<and> \<not> isSyncing s'"
    using idle by (simp add: eq pendingEntries_def)
  with again show "entries (handleSync env rid s) = entries s \<and>
            pendingEntries (handleSync env rid s) = pendingEntries s \<and>
            db_entries (handleSync env rid s) = db_entries s \<and>
            db_app_state (handleSync env rid s) = db_app_state s \<and>
            lastSyncTime (handleSync env rid s) = lastSyncTime s \<and>
            syncError (handleSync env rid s) \<noteq> None \<and>
            \<not> isSyncing (handleSync env rid s) \<and>
            (\<forall>env'. \<exists>rest. calls (handleSync env' rid (handleSync env rid s)) =
                      calls (handleSync env rid s) @ Push tok (entriesToSync rid s) # rest)"
    unfolding s'_def by blast
next
  fix pullResponse err
  assume late: "pull env tok (lastSyncTime s) = Inr pullResponse \<and>
            saveEntries_fault env
              (mergeEntries (map (markPushed pushResponse (entriesToSync rid s)) (entries s))
                 (pulledEntries pullResponse)) = None \<and>
            setAppState_fault env ''lastSyncTime'' (now env) = Some err"
  then have eq: "handleSync env rid s =
           s\<lparr>calls := calls s @ [Push tok (entriesToSync rid s), Pull tok (lastSyncTime s)],
             syncError := Some (error_text err),
             db_entries :=
               saveEntries
                 (mergeEntries (map (markPushed pushResponse (entriesToSync rid s)) (entries s))
                    (pulledEntries pullResponse)) (db_entries s),
             entries :=
               mergeEntries (map (markPushed pushResponse (entriesToSync rid s)) (entries s))
                 (pulledEntries pullResponse),
             lastSyncTime := Some (now env)\<rparr>"
    using abort_on_state_write [OF on idle tok ne batch pushed] by blast
  show "entries (handleSync env rid s) =
                mergeEntries (map (markPushed pushResponse (entriesToSync rid s)) (entries s))
                  (pulledEntries pullResponse) \<and>
              db_entries (handleSync env rid s) =
                saveEntries
                  (mergeEntries (map (markPushed pushResponse (entriesToSync rid s)) (entries s))
                     (pulledEntries pullResponse)) (db_entries s) \<and>
              lastSyncTime (handleSync env rid s) = Some (now env) \<and>
              db_app_state (handleSync env rid s) = db_app_state s \<and>
              syncError (handleSync env rid s) = Some (error_text err) \<and>
              \<not> isSyncing (handleSync env rid s)"
    unfolding eq using idle by simp
qed

theorem failure_after_push_witness:
  "isOnline gate_state \<and> \<not> isSyncing gate_state \<and> token gate_state = Some ''tok'' \<and>
   entriesToSync None gate_state = [r1] \<and>
   push pull_down ''tok'' (entriesToSync None gate_state) =
     Inr \<lparr>success = True, accepted = 1, rejected = 0, rejected_ids = None, message = ''ok''\<rparr> \<and>
   pull pull_down ''tok'' (lastSyncTime gate_state) = Inl (Error ''HTTP 500'') \<and>
   entries (handleSync pull_down None gate_state) = [r1, r2] \<and>
   pendingEntries (handleSync pull_down None gate_state) = [r1] \<and>
   db_entries (handleSync pull_down None gate_state) = db_entries gate_state \<and>
   lastSyncTime (handleSync pull_down None gate_state) = Some 100 \<and>
   (\<exists>rest. calls (handleSync calm None (handleSync pull_down None gate_state)) =
             calls (handleSync pull_down None gate_state) @ Push ''tok'' [r1] # rest) \<and>
   push state_write_fails ''tok'' (entriesToSync None gate_state) =
     Inr \<lparr>success = True, accepted = 1, rejected = 0, rejected_ids = None, message = ''ok''\<rparr> \<and>
   pull state_write_fails ''tok'' (lastSyncTime gate_state) =
     Inr \<lparr>pr_entries = Some [], pr_count = 0\<rparr> \<and>
   setAppState_fault state_write_fails ''lastSyncTime'' (now state_write_fails) =
     Some (Error ''QuotaExceededError'') \<and>
   entries (handleSync state_write_fails None gate_state) = [r1\<lparr>isPending := Some False\<rparr>, r2] \<and>
   db_app_state (handleSync state_write_fails None gate_state) = db_app_state gate_state \<and>
   syncError (handleSync state_write_fails None gate_state) = Some ''QuotaExceededError''"
proof -
  have h4: "''tok'' \<noteq> []" by simp
  have h5: "entriesToSync None gate_state \<noteq> []" by (simp add: gate_batch)
  have p: "push pull_down ''tok'' (entriesToSync None gate_state) =
     Inr \<lparr>success = True, accepted = 1, rejected = 0, rejected_ids = None, message = ''ok''\<rparr>"
    by (simp add: pull_down_def calm_def)
  have q: "pull pull_down ''tok'' (lastSyncTime gate_state) = Inl (Error ''HTTP 500'')"
    by (simp add: pull_down_def calm_def)
  have pe: "pendingEntries gate_state = [r1]"
    by (simp add: pendingEntries_def gate_guard r_ids)
  from failure_after_push [OF gate_guard(1-3) h4 h5 p] q
  have first: "entries (handleSync pull_down None gate_state) = entries gate_state \<and>
     pendingEntries (handleSync pull_down None gate_state) = pendingEntries gate_state \<and>
     db_entries (handleSync pull_down None gate_state) = db_entries gate_state \<and>
     lastSyncTime (handleSync pull_down None gate_state) = lastSyncTime gate_state \<and>
     (\<exists>rest. calls (handleSync calm None (handleSync pull_down None gate_state)) =
             calls (handleSync pull_down None gate_state) @
               Push ''tok'' (entriesToSync None gate_state) # rest)"
    by blast
  have p2: "push state_write_fails ''tok'' (entriesToSync None gate_state) =
     Inr \<lparr>success = True, accepted = 1, rejected = 0, rejected_ids = None, message = ''ok''\<rparr>"
    by (simp add: state_write_fails_def calm_def)
  have q2: "pull state_write_fails ''tok'' (lastSyncTime gate_state) =
     Inr \<lparr>pr_entries = Some [], pr_count = 0\<rparr>"
    by (simp add: state_write_fails_def calm_def)
  have sv: "saveEntries_fault state_write_fails
              (mergeEntries (map (markPushed
                  \<lparr>success = True, accepted = 1, rejected = 0, rejected_ids = None, message = ''ok''\<rparr>
                  (entriesToSync None gate_state)) (entries gate_state))
                 (pulledEntries \<lparr>pr_entries = Some [], pr_count = 0\<rparr>)) = None"
    by (simp add: state_write_fails_def calm_def)
  have w: "setAppState_fault state_write_fails ''lastSyncTime'' (now state_write_fails) =
     Some (Error ''QuotaExceededError'')"
    by (simp add: state_write_fails_def calm_def)
  from failure_after_push [OF gate_guard(1-3) h4 h5 p2] q2 sv w
  have second: "entries (handleSync state_write_fails None gate_state) =
                mergeEntries (map (markPushed
                  \<lparr>success = True, accepted = 1, rejected = 0, rejected_ids = None, message = ''ok''\<rparr>
                  (entriesToSync None gate_state)) (entries gate_state))
                  (pulledEntries \<lparr>pr_entries = Some [], pr_count = 0\<rparr>) \<and>
     db_app_state (handleSync state_write_fails None gate_state) = db_app_state gate_state \<and>
     syncError (handleSync state_write_fails None gate_state) =
       Some (error_text (Error ''QuotaExceededError''))"
    by blast
  from first second p q p2 q2 w show ?thesis
    by (simp add: gate_batch gate_guard pe pulledEntries_def marked_gate error_text_def)
qed

theorem state_write_failure_keeps_commit:
  "push state_write_fails ''tok'' [r1] =
     Inr \<lparr>success = True, accepted = 1, rejected = 0, rejected_ids = None, message = ''ok''\<rparr> \<and>
   entriesToSync None gate_state = [r1] \<and>
   setAppState_fault state_write_fails ''lastSyncTime'' 200 = Some (Error ''QuotaExceededError'') \<and>
   syncError (handleSync state_write_fails None gate_state) = Some ''QuotaExceededError'' \<and>
   entries gate_state = [r1, r2] \<and>
   entries (handleSync state_write_fails None gate_state) = [r1\<lparr>isPending := Some False\<rparr>, r2] \<and>
   lastSyncTime gate_state = Some 100 \<and>
   lastSyncTime (handleSync state_write_fails None gate_state) = Some 200"
  by (simp add: run_defs gate_batch gate_guard state_write_fails_def calm_def
      marked_gate pulledEntries_def)

end
